theory Spec2Isabelle
  imports Complex_Main "HOL-Library.Multiset"
begin

section \<open>The battle engine of backend/server.py\<close>

text \<open>
  The development covers the pairwise-comparison routes of \<^verbatim>\<open>backend/server.py\<close>:
  \<^verbatim>\<open>seed_models\<close>, \<^verbatim>\<open>get_battle\<close>, \<^verbatim>\<open>submit_vote\<close>, \<^verbatim>\<open>get_leaderboard\<close>,
  \<^verbatim>\<open>get_battle_stats\<close> and the method \<^verbatim>\<open>LLMModel.calculate_win_rate\<close>.

  Conventions of the embedding.
  \<^item> The two MongoDB collections \<^verbatim>\<open>db.llm_models\<close> and \<^verbatim>\<open>db.votes\<close> are lists of documents
    in insertion order; the store is assumed reachable, so no driver call raises.
  \<^item> Every route takes the store and returns its response together with the store it
    leaves behind. A Python exception is the left injection of a sum; the store paired
    with it holds every write made before the exception.
  \<^item> Values drawn from the environment are arguments: the results of \<^verbatim>\<open>uuid.uuid4()\<close>,
    of \<^verbatim>\<open>datetime.utcnow()\<close> and the random draws of \<^verbatim>\<open>random.sample\<close>.
  \<^item> Python \<^verbatim>\<open>int\<close> is \<^typ>\<open>int\<close>. Python \<^verbatim>\<open>float\<close> is an IEEE binary64 value:
    the exact rational value of a finite double, an infinity, or NaN; every operation
    rounds to nearest, ties to even. The sign of zero is not kept.
  \<^item> Field names follow the source. Where two classes share a field name the later
    one is prefixed: \<^verbatim>\<open>LLMModel.id\<close> is \<open>model_id\<close>, the fields of \<^verbatim>\<open>Vote\<close> are
    \<open>vote_id\<close>, \<open>vote_winner_id\<close>, \<open>vote_loser_id\<close>, and the key \<^verbatim>\<open>total_votes\<close> of the
    statistics dictionary is \<open>stats_total_votes\<close>.
\<close>

subsection \<open>Python floats\<close>

datatype pyfloat = Finite rat | PosInf | NegInf | NaN

datatype exn = ZeroDivisionError | OverflowError | ValueError | HTTPException nat detail
  and detail = Text string | Str exn

definition round_half_even :: "rat \<Rightarrow> int" where
  "round_half_even x =
     (let f = \<lfloor>x\<rfloor>; d = x - of_int f
      in if d < 1 / 2 then f
         else if 1 / 2 < d then f + 1
         else if even f then f else f + 1)"

definition pow2 :: "int \<Rightarrow> rat" where
  "pow2 e = (if 0 \<le> e then 2 ^ nat e else 1 / 2 ^ nat (- e))"

text \<open>The number of binary digits of a positive integer, \<^verbatim>\<open>int.bit_length\<close>.\<close>

function bit_length :: "int \<Rightarrow> int" where
  "bit_length n = (if n \<le> 0 then 0 else 1 + bit_length (n div 2))"
  by pat_completeness auto
termination
  by (relation "measure nat") auto

text \<open>The binary exponent of a non-zero rational: \<open>pow2 (ilog2 x) \<le> \<bar>x\<bar> < pow2 (ilog2 x + 1)\<close>.\<close>

definition ilog2 :: "rat \<Rightarrow> int" where
  "ilog2 x =
     (let (p, q) = quotient_of \<bar>x\<bar>;
          e = bit_length p - bit_length q
      in if pow2 e \<le> \<bar>x\<bar> then e else e - 1)"

text \<open>
  The least magnitude that rounds to an infinity, half a unit above the largest double:
  \<open>2 ^ 1024 - 2 ^ 970\<close>, written out.
\<close>

definition overflow_threshold :: rat where
  "overflow_threshold =
     179769313486231580793728971405303415079934132710037826936173778980444968292764750946649017977587207096330286416692887910946555547851940402630657488671505820681908902000708383676273854845817711531764475730270069855571366959622842914819860834936475292719074168444365510704342711559699508093042880177904174497792"

text \<open>
  Rounding a rational to binary64, to nearest with ties to even. Below \<open>2 ^ (- 1022)\<close>
  the spacing stays \<open>2 ^ (- 1074)\<close>, the subnormal range.
\<close>

definition fl :: "rat \<Rightarrow> pyfloat" where
  "fl x =
     (if x = 0 then Finite 0
      else if overflow_threshold \<le> \<bar>x\<bar> then (if 0 < x then PosInf else NegInf)
      else let ulp = pow2 (max (ilog2 x) (- 1022) - 52)
           in Finite (of_int (round_half_even (x / ulp)) * ulp))"

text \<open>
  \<^verbatim>\<open>a / b\<close> on two Python ints: the correctly rounded quotient; \<^verbatim>\<open>ZeroDivisionError\<close>
  for a zero divisor, \<^verbatim>\<open>OverflowError\<close> when the quotient is too large for a float.
\<close>

definition int_truediv :: "int \<Rightarrow> int \<Rightarrow> exn + pyfloat" where
  "int_truediv a b =
     (if b = 0 then Inl ZeroDivisionError
      else case fl (of_int a / of_int b) of
             Finite q \<Rightarrow> Inr (Finite q)
           | _ \<Rightarrow> Inl OverflowError)"

text \<open>\<^verbatim>\<open>x * y\<close> on two floats; an overflow gives an infinity, no exception.\<close>

fun float_mul :: "pyfloat \<Rightarrow> pyfloat \<Rightarrow> pyfloat" where
  "float_mul (Finite x) (Finite y) = fl (x * y)"
| "float_mul NaN y = NaN"
| "float_mul x NaN = NaN"
| "float_mul (Finite x) y =
     (if x = 0 then NaN else if (0 < x) = (y = PosInf) then PosInf else NegInf)"
| "float_mul x (Finite y) =
     (if y = 0 then NaN else if (0 < y) = (x = PosInf) then PosInf else NegInf)"
| "float_mul x y = (if x = y then PosInf else NegInf)"

text \<open>
  \<^verbatim>\<open>round(x, ndigits)\<close> on a float, for \<open>ndigits \<ge> 0\<close>: infinities and NaN round to
  themselves; beyond 323 digits every double rounds to itself; otherwise the exact value
  of \<open>x\<close> is rounded half-even to \<open>ndigits\<close> decimals and the decimal is converted back
  to the nearest double.
\<close>

fun py_round :: "pyfloat \<Rightarrow> nat \<Rightarrow> pyfloat" where
  "py_round (Finite x) ndigits =
     (if 323 < ndigits then Finite x
      else fl (of_int (round_half_even (x * 10 ^ ndigits)) / 10 ^ ndigits))"
| "py_round x ndigits = x"

text \<open>
  The order of BSON numbers, by which the store sorts: NaN is below every number and
  equal to itself, the infinities are the ends.
\<close>

fun bson_rank :: "pyfloat \<Rightarrow> nat \<times> rat" where
  "bson_rank NaN = (0, 0)"
| "bson_rank NegInf = (1, 0)"
| "bson_rank (Finite x) = (2, x)"
| "bson_rank PosInf = (3, 0)"

definition bson_lt :: "pyfloat \<Rightarrow> pyfloat \<Rightarrow> bool" where
  "bson_lt x y \<longleftrightarrow>
     fst (bson_rank x) < fst (bson_rank y) \<or>
     fst (bson_rank x) = fst (bson_rank y) \<and> snd (bson_rank x) < snd (bson_rank y)"

definition bson_le :: "pyfloat \<Rightarrow> pyfloat \<Rightarrow> bool" where
  "bson_le x y \<longleftrightarrow> x = y \<or> bson_lt x y"

subsection \<open>Data model\<close>

type_synonym datetime = nat

record LLMModel =
  model_id :: string
  name :: string
  provider :: string
  description :: string
  capabilities :: "string list"
  performance_score :: pyfloat
  total_votes :: int
  wins :: int
  losses :: int
  win_rate :: pyfloat
  created_at :: datetime
  image_url :: "string option"

record Vote =
  vote_id :: string
  vote_winner_id :: string
  vote_loser_id :: string
  voter_ip :: "string option"
  timestamp :: datetime

record Battle =
  model1 :: LLMModel
  model2 :: LLMModel

record VoteRequest =
  winner_id :: string
  loser_id :: string

record db =
  llm_models :: "LLMModel list"
  votes :: "Vote list"

text \<open>The dictionaries \<^verbatim>\<open>{"success": ..., "message": ...}\<close> returned by the write routes.\<close>

record response =
  success :: bool
  message :: string

record battle_stats =
  stats_total_votes :: nat
  total_models :: nat
  top_model :: "string option"
  battles_completed :: nat

definition calculate_win_rate :: "LLMModel \<Rightarrow> exn + pyfloat" where
  "calculate_win_rate self =
     (if total_votes self = 0 then Inr (Finite 0)
      else case int_truediv (wins self) (total_votes self) of
             Inl e \<Rightarrow> Inl e
           | Inr q \<Rightarrow> Inr (py_round (float_mul q (Finite 100)) 1))"

subsection \<open>The collection primitives\<close>

text \<open>\<^verbatim>\<open>find_one(filter)\<close>: the first matching document, or \<^verbatim>\<open>None\<close>.\<close>

fun find_one :: "('a \<Rightarrow> bool) \<Rightarrow> 'a list \<Rightarrow> 'a option" where
  "find_one p [] = None"
| "find_one p (x # xs) = (if p x then Some x else find_one p xs)"

text \<open>\<^verbatim>\<open>update_one(filter, update)\<close>: rewrites the first matching document, if there is one.\<close>

fun update_one :: "('a \<Rightarrow> bool) \<Rightarrow> ('a \<Rightarrow> 'a) \<Rightarrow> 'a list \<Rightarrow> 'a list" where
  "update_one p f [] = []"
| "update_one p f (x # xs) = (if p x then f x # xs else x # update_one p f xs)"

definition insert_one :: "'a \<Rightarrow> 'a list \<Rightarrow> 'a list" where
  "insert_one doc coll = coll @ [doc]"

definition count_documents :: "'a list \<Rightarrow> nat" where
  "count_documents coll = length coll"

definition to_list :: "nat \<Rightarrow> 'a list \<Rightarrow> 'a list" where
  "to_list n cursor = take n cursor"

definition limit :: "nat \<Rightarrow> 'a list \<Rightarrow> 'a list" where
  "limit n cursor = take n cursor"

text \<open>
  \<^verbatim>\<open>sort([(field, direction), ...])\<close>: the first key on which two documents differ
  decides; direction \<open>-1\<close> is descending. The keys are BSON numbers, compared by
  \<open>bson_lt\<close>. Documents equal on every key keep their store order.
\<close>

fun sort_le :: "(('a \<Rightarrow> pyfloat) \<times> int) list \<Rightarrow> 'a \<Rightarrow> 'a \<Rightarrow> bool" where
  "sort_le [] a b = True"
| "sort_le ((field, direction) # keys) a b =
     (if field a = field b then sort_le keys a b
      else if direction < 0 then bson_lt (field b) (field a)
      else bson_lt (field a) (field b))"

fun sort_insert :: "('a \<Rightarrow> 'a \<Rightarrow> bool) \<Rightarrow> 'a \<Rightarrow> 'a list \<Rightarrow> 'a list" where
  "sort_insert le x [] = [x]"
| "sort_insert le x (y # ys) =
     (if le x y then x # y # ys else y # sort_insert le x ys)"

definition mongo_sort :: "(('a \<Rightarrow> pyfloat) \<times> int) list \<Rightarrow> 'a list \<Rightarrow> 'a list" where
  "mongo_sort keys coll = foldr (sort_insert (sort_le keys)) coll []"

text \<open>
  \<^verbatim>\<open>random.sample(population, 2)\<close> as CPython runs it. \<open>draws k\<close> is the value of the
  \<open>k\<close>-th call of \<^verbatim>\<open>randbelow\<close>, reduced below the bound of the call. A population of
  fewer than two elements raises \<^verbatim>\<open>ValueError\<close>. Up to 21 elements the sample is taken
  from a copy of the list: the first draw picks a position, the last element takes the
  place of the pick, the second draw picks among the remaining positions. Above 21
  elements both positions are drawn among all of them, and the second is drawn again
  while it repeats the first: a loop that need not end, so the result is an option.
\<close>

partial_function (option) draw_unselected :: "(nat \<Rightarrow> nat) \<Rightarrow> nat \<Rightarrow> nat \<Rightarrow> nat \<Rightarrow> nat option"
where
  "draw_unselected draws n selected k =
     (if draws k mod n = selected then draw_unselected draws n selected (Suc k)
      else Some (draws k mod n))"

definition random_sample2 :: "(nat \<Rightarrow> nat) \<Rightarrow> 'a list \<Rightarrow> (exn + 'a list) option" where
  "random_sample2 draws population =
     (let n = length population
      in if n < 2 then Some (Inl ValueError)
         else if n \<le> 21
         then let j0 = draws 0 mod n;
                  pool = population[j0 := population ! (n - 1)];
                  j1 = draws 1 mod (n - 1)
              in Some (Inr [population ! j0, pool ! j1])
         else let j0 = draws 0 mod n
              in case draw_unselected draws n j0 1 of
                   None \<Rightarrow> None
                 | Some j1 \<Rightarrow> Some (Inr [population ! j0, population ! j1]))"

subsection \<open>The routes\<close>

text \<open>\<^verbatim>\<open>except Exception as e: raise HTTPException(status_code=500, detail=str(e))\<close>\<close>

fun handle_500 :: "exn + 'a \<Rightarrow> exn + 'a" where
  "handle_500 (Inl e) = Inl (HTTPException 500 (Str e))"
| "handle_500 (Inr v) = Inr v"

text \<open>
  The literal list \<^verbatim>\<open>models\<close> of \<^verbatim>\<open>seed_models\<close>: name, provider, description,
  capabilities, performance score and image URL of each entry.
\<close>

type_synonym model_data = "string \<times> string \<times> string \<times> string list \<times> pyfloat \<times> string"

definition models :: "model_data list" where
  "models =
    [(''GPT-4'', ''OpenAI'',
      ''OpenAI'' @ [CHR 0x27] @ ''s most advanced GPT model with superior reasoning capabilities'',
      [''Text Generation'', ''Code'', ''Math'', ''Analysis'', ''Creative Writing''], Finite 95,
      ''https://images.unsplash.com/photo-1677442136019-21780ecad995?w=400''),
     (''Claude 4 Sonnet'', ''Anthropic'',
      ''Anthropic'' @ [CHR 0x27] @ ''s flagship model balancing intelligence, speed, and cost'',
      [''Text Analysis'', ''Code'', ''Math'', ''Creative Tasks'', ''Safety''], Finite 94,
      ''https://images.unsplash.com/photo-1655635949348-953b0e3c140a?w=400''),
     (''Gemini 2.5 Pro'', ''Google'',
      ''Google'' @ [CHR 0x27] @ ''s most advanced multimodal AI with exceptional capabilities'',
      [''Multimodal'', ''Long Context'', ''Code'', ''Math'', ''Analysis''], Finite 93,
      ''https://images.unsplash.com/photo-1639322537228-f710d846310a?w=400''),
     (''Claude 4 Haiku'', ''Anthropic'',
      ''Fast and efficient model for quick responses'',
      [''Speed'', ''Text Generation'', ''Basic Analysis'', ''Code''], Finite 87,
      ''https://images.unsplash.com/photo-1620712943543-bcc4688e7485?w=400''),
     (''Llama 3.3'', ''Meta'',
      ''Open-source powerhouse with strong performance'',
      [''Open Source'', ''Text Generation'', ''Code'', ''Multilingual''], Finite 89,
      ''https://images.unsplash.com/photo-1555949963-aa79dcee981c?w=400''),
     (''Mistral Large'', ''Mistral AI'',
      ''European AI model with strong multilingual capabilities'',
      [''Multilingual'', ''Code'', ''Text Generation'', ''Analysis''], Finite 86,
      ''https://images.unsplash.com/photo-1451187580459-43490279c0fa?w=400''),
     (''PaLM 2'', ''Google'',
      ''Google'' @ [CHR 0x27] @ ''s language model with strong reasoning abilities'',
      [''Reasoning'', ''Code'', ''Math'', ''Multilingual''], Finite 85,
      ''https://images.unsplash.com/photo-1518709268805-4e9042af2176?w=400''),
     (''GPT-3.5 Turbo'', ''OpenAI'',
      ''Fast and cost-effective model for general tasks'',
      [''Speed'', ''Cost-effective'', ''Text Generation'', ''Code''], Finite 82,
      ''https://images.unsplash.com/photo-1676277791608-ac54325e36e1?w=400'')]"

text \<open>
  \<^verbatim>\<open>LLMModel(**model_data)\<close>: the fields the dictionary lacks take their defaults, a
  fresh uuid, the current time and zeroed statistics.
\<close>

fun new_LLMModel :: "string \<Rightarrow> datetime \<Rightarrow> model_data \<Rightarrow> LLMModel" where
  "new_LLMModel uuid now (nm, prov, descr, caps, score, url) =
     \<lparr>model_id = uuid, name = nm, provider = prov, description = descr,
      capabilities = caps, performance_score = score, total_votes = 0, wins = 0,
      losses = 0, win_rate = Finite 0, created_at = now, image_url = Some url\<rparr>"

text \<open>The insertion loop; \<open>i\<close> counts the iterations and indexes the environment.\<close>

fun seed_loop ::
  "(nat \<Rightarrow> string) \<Rightarrow> (nat \<Rightarrow> datetime) \<Rightarrow> nat \<Rightarrow> model_data list \<Rightarrow> LLMModel list
    \<Rightarrow> LLMModel list" where
  "seed_loop uuid4 utcnow i [] coll = coll"
| "seed_loop uuid4 utcnow i (model_data # rest) coll =
     seed_loop uuid4 utcnow (Suc i) rest
       (insert_one (new_LLMModel (uuid4 i) (utcnow i) model_data) coll)"

fun str_nat :: "nat \<Rightarrow> string" where
  "str_nat n =
     (if n < 10 then [char_of (48 + n)]
      else str_nat (n div 10) @ [char_of (48 + n mod 10)])"

definition seed_models ::
  "(nat \<Rightarrow> string) \<Rightarrow> (nat \<Rightarrow> datetime) \<Rightarrow> db \<Rightarrow> (exn + response) \<times> db" where
  "seed_models uuid4 utcnow d =
     (let d1 = d\<lparr>llm_models := []\<rparr>;
          d2 = d1\<lparr>llm_models := seed_loop uuid4 utcnow 0 models (llm_models d1)\<rparr>
      in (handle_500
            (Inr \<lparr>success = True,
                  message = ''Seeded '' @ str_nat (length models) @ '' LLM models''\<rparr>),
          d2))"

definition get_all_models :: "db \<Rightarrow> (exn + LLMModel list) \<times> db" where
  "get_all_models d = (handle_500 (Inr (to_list 1000 (llm_models d))), d)"

text \<open>
  \<open>draws\<close> are the values of the successive \<^verbatim>\<open>randbelow\<close> calls; \<open>None\<close> is a request
  that never returns.
\<close>

definition get_battle :: "(nat \<Rightarrow> nat) \<Rightarrow> db \<Rightarrow> ((exn + Battle) \<times> db) option" where
  "get_battle draws d =
     (let ms = to_list 1000 (llm_models d)
      in if length ms < 2
         then Some (handle_500
                      (Inl (HTTPException 400 (Text ''Need at least 2 models to battle''))),
                    d)
         else case random_sample2 draws ms of
                None \<Rightarrow> None
              | Some (Inl e) \<Rightarrow> Some (handle_500 (Inl e), d)
              | Some (Inr selected_models) \<Rightarrow>
                  Some (handle_500
                          (Inr \<lparr>model1 = selected_models ! 0,
                                model2 = selected_models ! 1\<rparr>),
                        d))"

text \<open>The updates \<^verbatim>\<open>{"$inc": {"total_votes": 1, "wins": 1}}\<close> and its twin for the loser.\<close>

definition winner_update :: "LLMModel \<Rightarrow> LLMModel" where
  "winner_update m = m\<lparr>total_votes := total_votes m + 1, wins := wins m + 1\<rparr>"

definition loser_update :: "LLMModel \<Rightarrow> LLMModel" where
  "loser_update m = m\<lparr>total_votes := total_votes m + 1, losses := losses m + 1\<rparr>"

text \<open>
  The loop \<^verbatim>\<open>for model_id in [winner_id, loser_id]\<close>: re-read, recompute, write back.
  An exception leaves the loop with the store as it is at that point.
\<close>

fun recalculate :: "string list \<Rightarrow> db \<Rightarrow> (exn + unit) \<times> db" where
  "recalculate [] d = (Inr (), d)"
| "recalculate (mid # rest) d =
     (case find_one (\<lambda>m. model_id m = mid) (llm_models d) of
        None \<Rightarrow> recalculate rest d
      | Some model \<Rightarrow>
          (case calculate_win_rate model of
             Inl e \<Rightarrow> (Inl e, d)
           | Inr rate \<Rightarrow>
               recalculate rest
                 (d\<lparr>llm_models :=
                      update_one (\<lambda>m. model_id m = mid) (\<lambda>m. m\<lparr>win_rate := rate\<rparr>)
                        (llm_models d)\<rparr>)))"

definition submit_vote ::
  "string \<Rightarrow> datetime \<Rightarrow> VoteRequest \<Rightarrow> db \<Rightarrow> (exn + response) \<times> db" where
  "submit_vote uuid now vote_request d =
     (let vote = \<lparr>vote_id = uuid, vote_winner_id = winner_id vote_request,
                  vote_loser_id = loser_id vote_request, voter_ip = None,
                  timestamp = now\<rparr>;
          d1 = d\<lparr>votes := insert_one vote (votes d)\<rparr>;
          d2 = d1\<lparr>llm_models :=
                    update_one (\<lambda>m. model_id m = winner_id vote_request) winner_update
                      (llm_models d1)\<rparr>;
          d3 = d2\<lparr>llm_models :=
                    update_one (\<lambda>m. model_id m = loser_id vote_request) loser_update
                      (llm_models d2)\<rparr>
      in case recalculate [winner_id vote_request, loser_id vote_request] d3 of
           (Inl e, d4) \<Rightarrow> (handle_500 (Inl e), d4)
         | (Inr u, d4) \<Rightarrow>
             (handle_500
                (Inr \<lparr>success = True, message = ''Vote recorded successfully''\<rparr>),
              d4))"

definition get_leaderboard :: "db \<Rightarrow> (exn + LLMModel list) \<times> db" where
  "get_leaderboard d =
     (handle_500
        (Inr (to_list 1000
               (mongo_sort [(\<lambda>m. Finite (of_int (wins m)), - 1), (win_rate, - 1)]
                 (llm_models d)))),
      d)"

definition get_battle_stats :: "db \<Rightarrow> (exn + battle_stats) \<times> db" where
  "get_battle_stats d =
     (let total_votes_n = count_documents (votes d);
          total_models_n = count_documents (llm_models d);
          top_models =
            to_list 1
              (limit 1 (mongo_sort [(\<lambda>m. Finite (of_int (wins m)), - 1)] (llm_models d)));
          top = (case top_models of [] \<Rightarrow> None | m # _ \<Rightarrow> Some m)
      in (handle_500
            (Inr \<lparr>stats_total_votes = total_votes_n, total_models = total_models_n,
                  top_model = map_option name top,
                  battles_completed = total_votes_n\<rparr>),
          d))"

section \<open>Notions used in the statements\<close>

text \<open>
  The definitions of this section are not part of the program. They name the document a
  recomputation leaves behind, the catalog a vote leaves behind, the properties the
  statements speak about, and a few small stores on which the routes are evaluated.
\<close>

text \<open>
  The integers a stored document can hold, BSON's 64-bit range, and the documents whose
  three counters lie in it.
\<close>

definition bson_int64 :: "int \<Rightarrow> bool" where
  "bson_int64 i \<longleftrightarrow> - (2 ^ 63) \<le> i \<and> i < 2 ^ 63"

definition bson_counters :: "LLMModel \<Rightarrow> bool" where
  "bson_counters m \<longleftrightarrow>
     bson_int64 (total_votes m) \<and> bson_int64 (wins m) \<and> bson_int64 (losses m)"

text \<open>Two documents that differ at most in the stored win rate.\<close>

definition only_win_rate :: "LLMModel \<Rightarrow> LLMModel \<Rightarrow> bool" where
  "only_win_rate m m' \<longleftrightarrow> m' = m\<lparr>win_rate := win_rate m'\<rparr>"

text \<open>
  The document after its win rate has been recomputed and written back; unchanged where
  the recomputation raises.
\<close>

definition recalculated :: "LLMModel \<Rightarrow> LLMModel" where
  "recalculated m = (case calculate_win_rate m of Inl e \<Rightarrow> m | Inr rate \<Rightarrow> m\<lparr>win_rate := rate\<rparr>)"

text \<open>
  The four catalog writes of a \<^verbatim>\<open>submit_vote\<close> that runs to its end, in the order the
  route makes them.
\<close>

definition cast_vote :: "VoteRequest \<Rightarrow> LLMModel list \<Rightarrow> LLMModel list" where
  "cast_vote vr coll =
     update_one (\<lambda>m. model_id m = loser_id vr) recalculated
       (update_one (\<lambda>m. model_id m = winner_id vr) recalculated
         (update_one (\<lambda>m. model_id m = loser_id vr) loser_update
           (update_one (\<lambda>m. model_id m = winner_id vr) winner_update coll)))"

text \<open>
  A sequence of requests to \<^verbatim>\<open>submit_vote\<close>, handled one after the other; each carries
  the uuid and the time the route draws for its record.
\<close>

fun submit_votes :: "(string \<times> datetime \<times> VoteRequest) list \<Rightarrow> db \<Rightarrow> db" where
  "submit_votes [] d = d"
| "submit_votes ((uuid, now, vote_request) # rest) d =
     submit_votes rest (snd (submit_vote uuid now vote_request d))"

text \<open>The counter invariant of one document, and the order in which counters only grow.\<close>

definition counts_ok :: "LLMModel \<Rightarrow> bool" where
  "counts_ok m \<longleftrightarrow>
     total_votes m = wins m + losses m \<and> 0 \<le> total_votes m \<and> 0 \<le> wins m \<and> 0 \<le> losses m"

definition counts_le :: "LLMModel \<Rightarrow> LLMModel \<Rightarrow> bool" where
  "counts_le m m' \<longleftrightarrow>
     model_id m' = model_id m \<and> total_votes m \<le> total_votes m' \<and> wins m \<le> wins m' \<and>
     losses m \<le> losses m'"

text \<open>
  The stored win rate agrees with the counters: \<^verbatim>\<open>round(wins / total_votes * 100, 1)\<close>
  when there are votes, \<open>0.0\<close> when there are none.
\<close>

definition win_rate_consistent :: "LLMModel \<Rightarrow> bool" where
  "win_rate_consistent m \<longleftrightarrow>
     (0 < total_votes m \<longrightarrow>
        win_rate m
          = py_round (float_mul (fl (of_int (wins m) / of_int (total_votes m))) (Finite 100)) 1) \<and>
     (total_votes m = 0 \<longrightarrow> win_rate m = Finite 0)"

text \<open>Example documents and stores.\<close>

definition example_model :: "string \<Rightarrow> int \<Rightarrow> int \<Rightarrow> int \<Rightarrow> pyfloat \<Rightarrow> LLMModel" where
  "example_model mid t w l r =
     \<lparr>model_id = mid, name = ''Model '' @ mid, provider = ''Lab'', description = ''example'',
      capabilities = [], performance_score = Finite 90, total_votes = t, wins = w, losses = l,
      win_rate = r, created_at = 0, image_url = None\<rparr>"

definition example_db :: db where
  "example_db =
     \<lparr>llm_models = [example_model ''a'' 0 0 0 (Finite 0), example_model ''b'' 0 0 0 (Finite 0)],
      votes = []\<rparr>"

definition example_voted_db :: db where
  "example_voted_db =
     \<lparr>llm_models = [example_model ''a'' 1 1 0 (Finite 100),
                    example_model ''b'' 3 1 2 (fl (333 / 10)),
                    example_model ''c'' 2 2 0 (Finite 100)],
      votes = [\<lparr>vote_id = ''v1'', vote_winner_id = ''a'', vote_loser_id = ''b'',
                voter_ip = None, timestamp = 1\<rparr>,
               \<lparr>vote_id = ''v2'', vote_winner_id = ''c'', vote_loser_id = ''b'',
                voter_ip = None, timestamp = 2\<rparr>,
               \<lparr>vote_id = ''v3'', vote_winner_id = ''c'', vote_loser_id = ''b'',
                voter_ip = None, timestamp = 3\<rparr>]\<rparr>"

definition example_large_db :: db where
  "example_large_db =
     \<lparr>llm_models = map (\<lambda>i. example_model (str_nat i) 0 0 0 (Finite 0)) [0..<1001],
      votes = []\<rparr>"

definition example_draws :: "nat \<Rightarrow> nat" where
  "example_draws k = (if k = 0 then 3 else if k = 1 then 3 else if k = 2 then 1003 else 24)"

section \<open>Properties of the primitives and of the routes\<close>

lemma overflow_threshold_eq: "overflow_threshold = 2 ^ 1024 - 2 ^ 970"
  by (simp add: overflow_threshold_def)

lemma fl_finite: "\<bar>x\<bar> < overflow_threshold \<Longrightarrow> \<exists>q. fl x = Finite q"
  by (simp add: fl_def Let_def)

lemma quotient_le:
  fixes a b :: int
  assumes "b \<noteq> 0"
  shows "\<bar>of_int a / of_int b :: rat\<bar> \<le> \<bar>of_int a\<bar>"
proof -
  have "(1::rat) \<le> \<bar>of_int b\<bar>"
    using assms by (metis of_int_abs of_int_1_le_iff abs_ge_zero zero_less_abs_iff
        int_one_le_iff_zero_less)
  then have "\<bar>of_int a :: rat\<bar> / \<bar>of_int b\<bar> \<le> \<bar>of_int a\<bar> / 1"
    by (intro divide_left_mono) auto
  then show ?thesis
    by (simp add: abs_divide)
qed

lemma int_truediv_small:
  assumes "\<bar>a\<bar> \<le> 2 ^ 63" and "b \<noteq> 0"
  shows "int_truediv a b = Inr (fl (of_int a / of_int b))"
proof -
  have "\<bar>of_int a :: rat\<bar> \<le> 2 ^ 63"
    using assms(1) by (metis of_int_abs of_int_le_iff of_int_numeral of_int_power)
  then have "\<bar>of_int a / of_int b :: rat\<bar> \<le> 2 ^ 63"
    using quotient_le [OF assms(2), of a] by linarith
  moreover have "(2::rat) ^ 63 < overflow_threshold"
    by (simp add: overflow_threshold_def)
  ultimately obtain q where "fl (of_int a / of_int b) = Finite q"
    using fl_finite [of "of_int a / of_int b"] by fastforce
  then show ?thesis
    using assms(2) by (simp add: int_truediv_def)
qed

lemma int_truediv_errors: "int_truediv a b = Inl e \<Longrightarrow> b \<noteq> 0 \<Longrightarrow> e = OverflowError"
  by (auto simp: int_truediv_def split: pyfloat.splits)

lemma calculate_win_rate_small:
  "\<bar>wins m\<bar> \<le> 2 ^ 63 \<Longrightarrow>
     calculate_win_rate m =
       Inr (if total_votes m = 0 then Finite 0
            else py_round (float_mul (fl (of_int (wins m) / of_int (total_votes m)))
                   (Finite 100)) 1)"
  by (simp add: calculate_win_rate_def int_truediv_small)

lemma bson_int64_small: "bson_int64 i \<Longrightarrow> \<bar>i\<bar> \<le> 2 ^ 63 \<and> \<bar>i + 1\<bar> \<le> 2 ^ 63"
  by (auto simp: bson_int64_def)

lemma recalculated_eq:
  "calculate_win_rate m = Inr rate \<Longrightarrow> recalculated m = m\<lparr>win_rate := rate\<rparr>"
  by (simp add: recalculated_def)

lemma recalculated_fields [simp]:
  "model_id (recalculated m) = model_id m"
  "total_votes (recalculated m) = total_votes m"
  "wins (recalculated m) = wins m"
  "losses (recalculated m) = losses m"
  "name (recalculated m) = name m"
  by (simp_all add: recalculated_def split: sum.split)

lemma winner_update_fields [simp]:
  "model_id (winner_update m) = model_id m"
  "total_votes (winner_update m) = total_votes m + 1"
  "wins (winner_update m) = wins m + 1"
  "losses (winner_update m) = losses m"
  by (simp_all add: winner_update_def)

lemma loser_update_fields [simp]:
  "model_id (loser_update m) = model_id m"
  "total_votes (loser_update m) = total_votes m + 1"
  "wins (loser_update m) = wins m"
  "losses (loser_update m) = losses m + 1"
  by (simp_all add: loser_update_def)

lemma only_win_rate_fields:
  "only_win_rate m m' \<Longrightarrow>
     model_id m' = model_id m \<and> total_votes m' = total_votes m \<and> wins m' = wins m \<and>
     losses m' = losses m \<and> name m' = name m"
  by (cases m, cases m') (simp add: only_win_rate_def)

lemma only_win_rate_refl [simp]: "only_win_rate m m"
  by (simp add: only_win_rate_def)

lemma only_win_rate_set [simp]: "only_win_rate m (m\<lparr>win_rate := r\<rparr>)"
  by (simp add: only_win_rate_def)

lemma update_one_absent: "find_one p xs = None \<Longrightarrow> update_one p f xs = xs"
  by (induction xs) (auto split: if_splits)

lemma update_one_ident [simp]: "update_one p (\<lambda>m. m) xs = xs"
  by (induction xs) auto

lemma update_one_cong_found:
  "find_one p xs = Some m \<Longrightarrow> f m = g m \<Longrightarrow> update_one p f xs = update_one p g xs"
  by (induction xs) (auto split: if_splits)

lemma length_update_one [simp]: "length (update_one p f xs) = length xs"
  by (induction xs) auto

lemma find_one_in_set: "find_one p xs = Some m \<Longrightarrow> m \<in> set xs"
  by (induction xs) (auto split: if_splits)

lemma find_one_update_same:
  "(\<And>x. p x \<Longrightarrow> p (f x)) \<Longrightarrow> find_one p (update_one p f xs) = map_option f (find_one p xs)"
  by (induction xs) auto

lemma find_one_update_other:
  "(\<And>x. q x \<Longrightarrow> \<not> p x \<and> \<not> p (f x)) \<Longrightarrow> find_one p (update_one q f xs) = find_one p xs"
  by (induction xs) auto

lemma find_one_update_None:
  "(\<And>x. p (f x) = p x) \<Longrightarrow> find_one p xs = None \<Longrightarrow> find_one p (update_one q f xs) = None"
  by (induction xs) (auto split: if_splits)

lemma filter_update_one:
  "(\<And>x. p x \<Longrightarrow> \<not> q x \<and> \<not> q (f x)) \<Longrightarrow> filter q (update_one p f xs) = filter q xs"
  by (induction xs) auto

lemma map_update_one:
  "(\<And>x. h (f x) = h x) \<Longrightarrow> map h (update_one p f xs) = map h xs"
  by (induction xs) auto

lemma update_one_all2:
  "(\<And>x. R x x) \<Longrightarrow> (\<And>x. p x \<Longrightarrow> R x (f x)) \<Longrightarrow> list_all2 R xs (update_one p f xs)"
  by (induction xs) (auto intro: list_all2_refl)

lemma update_one_pres:
  "\<forall>x\<in>set xs. P x \<Longrightarrow> (\<And>x. P x \<Longrightarrow> p x \<Longrightarrow> P (f x)) \<Longrightarrow> \<forall>x\<in>set (update_one p f xs). P x"
  by (induction xs) auto

lemma update_one_pres2:
  "\<forall>x\<in>set xs. P x \<Longrightarrow> (\<And>x. P x \<Longrightarrow> Q x) \<Longrightarrow> (\<And>x. P x \<Longrightarrow> p x \<Longrightarrow> Q (f x)) \<Longrightarrow>
     \<forall>x\<in>set (update_one p f xs). Q x"
  by (induction xs) auto

lemma recalculate_shape:
  "\<exists>fs. length fs = length ids \<and> (\<forall>f\<in>set fs. \<forall>m. only_win_rate m (f m)) \<and>
        llm_models (snd (recalculate ids d))
          = foldl (\<lambda>coll (mid, f). update_one (\<lambda>m. model_id m = mid) f coll)
              (llm_models d) (zip ids fs) \<and>
        votes (snd (recalculate ids d)) = votes d"
proof (induction ids arbitrary: d)
  case Nil
  show ?case by simp
next
  case (Cons mid rest)
  let ?step = "\<lambda>coll (mid, f). update_one (\<lambda>m. model_id m = mid) f coll"
  have keep: "\<exists>fs. length fs = length (mid # rest) \<and> (\<forall>f\<in>set fs. \<forall>m. only_win_rate m (f m)) \<and>
        llm_models d' = foldl ?step (llm_models d) (zip (mid # rest) fs) \<and> votes d' = votes d"
    if "\<exists>fs. length fs = length rest \<and> (\<forall>f\<in>set fs. \<forall>m. only_win_rate m (f m)) \<and>
        llm_models d' = foldl ?step (llm_models d) (zip rest fs) \<and> votes d' = votes d" for d'
  proof -
    from that obtain fs where fs: "length fs = length rest"
      "\<forall>f\<in>set fs. \<forall>m. only_win_rate m (f m)"
      "llm_models d' = foldl ?step (llm_models d) (zip rest fs)" "votes d' = votes d"
      by blast
    show ?thesis
      by (rule exI [of _ "(\<lambda>m. m) # fs"]) (use fs in simp)
  qed
  show ?case
  proof (cases "find_one (\<lambda>m. model_id m = mid) (llm_models d)")
    case None
    then show ?thesis
      using keep [OF Cons.IH [of d]] by simp
  next
    case (Some model)
    show ?thesis
    proof (cases "calculate_win_rate model")
      case (Inl e)
      have "\<exists>fs. length fs = length rest \<and> (\<forall>f\<in>set fs. \<forall>m. only_win_rate m (f m)) \<and>
        llm_models d = foldl ?step (llm_models d) (zip rest fs) \<and> votes d = votes d"
      proof (rule exI [of _ "replicate (length rest) (\<lambda>m. m)"], intro conjI)
        have "foldl ?step coll (zip rest' (replicate (length rest') (\<lambda>m. m))) = coll"
          for coll :: "LLMModel list" and rest' :: "string list"
          by (induction rest' arbitrary: coll) simp_all
        then show "llm_models d
            = foldl ?step (llm_models d) (zip rest (replicate (length rest) (\<lambda>m. m)))"
          by simp
      qed simp_all
      from keep [OF this] Some Inl show ?thesis
        by simp
    next
      case (Inr rate)
      let ?d = "d\<lparr>llm_models :=
                   update_one (\<lambda>m. model_id m = mid) (\<lambda>m. m\<lparr>win_rate := rate\<rparr>) (llm_models d)\<rparr>"
      from Cons.IH [of ?d] obtain fs where fs: "length fs = length rest"
        "\<forall>f\<in>set fs. \<forall>m. only_win_rate m (f m)"
        "llm_models (snd (recalculate rest ?d)) = foldl ?step (llm_models ?d) (zip rest fs)"
        "votes (snd (recalculate rest ?d)) = votes ?d"
        by blast
      show ?thesis
        by (rule exI [of _ "(\<lambda>m. m\<lparr>win_rate := rate\<rparr>) # fs"]) (use fs Some Inr in simp)
    qed
  qed
qed

lemma submit_vote_snd:
  "snd (submit_vote uuid now vr d)
     = snd (recalculate [winner_id vr, loser_id vr]
         (d\<lparr>votes := votes d @
               [\<lparr>vote_id = uuid, vote_winner_id = winner_id vr, vote_loser_id = loser_id vr,
                 voter_ip = None, timestamp = now\<rparr>],
            llm_models :=
              update_one (\<lambda>m. model_id m = loser_id vr) loser_update
                (update_one (\<lambda>m. model_id m = winner_id vr) winner_update (llm_models d))\<rparr>))"
  by (simp add: submit_vote_def insert_one_def Let_def split: prod.split sum.split
      del: recalculate.simps)

lemma submit_vote_shape:
  "\<exists>f g. (\<forall>m. only_win_rate m (f m)) \<and> (\<forall>m. only_win_rate m (g m)) \<and>
     llm_models (snd (submit_vote uuid now vr d))
       = update_one (\<lambda>m. model_id m = loser_id vr) g
           (update_one (\<lambda>m. model_id m = winner_id vr) f
             (update_one (\<lambda>m. model_id m = loser_id vr) loser_update
               (update_one (\<lambda>m. model_id m = winner_id vr) winner_update (llm_models d)))) \<and>
     votes (snd (submit_vote uuid now vr d))
       = votes d @ [\<lparr>vote_id = uuid, vote_winner_id = winner_id vr,
                     vote_loser_id = loser_id vr, voter_ip = None, timestamp = now\<rparr>]"
proof -
  let ?d = "d\<lparr>votes := votes d @
               [\<lparr>vote_id = uuid, vote_winner_id = winner_id vr, vote_loser_id = loser_id vr,
                 voter_ip = None, timestamp = now\<rparr>],
            llm_models :=
              update_one (\<lambda>m. model_id m = loser_id vr) loser_update
                (update_one (\<lambda>m. model_id m = winner_id vr) winner_update (llm_models d))\<rparr>"
  obtain fs where fs: "length fs = length [winner_id vr, loser_id vr]"
    "\<forall>f\<in>set fs. \<forall>m. only_win_rate m (f m)"
    "llm_models (snd (recalculate [winner_id vr, loser_id vr] ?d))
       = foldl (\<lambda>coll (mid, f). update_one (\<lambda>m. model_id m = mid) f coll)
           (llm_models ?d) (zip [winner_id vr, loser_id vr] fs)"
    "votes (snd (recalculate [winner_id vr, loser_id vr] ?d)) = votes ?d"
    using recalculate_shape [of "[winner_id vr, loser_id vr]" ?d] by blast
  from fs(1) obtain f g where "fs = [f, g]"
    by (cases fs; cases "tl fs"; cases "tl (tl fs)") auto
  with fs show ?thesis
    by (intro exI [of _ f] exI [of _ g]) (simp add: submit_vote_snd)
qed

lemma recalculate_eq:
  "\<forall>m\<in>set (llm_models d). \<bar>wins m\<bar> \<le> 2 ^ 63 \<Longrightarrow>
   recalculate ids d =
     (Inr (), d\<lparr>llm_models :=
                 foldl (\<lambda>coll mid. update_one (\<lambda>m. model_id m = mid) recalculated coll)
                   (llm_models d) ids\<rparr>)"
proof (induction ids arbitrary: d)
  case Nil
  show ?case by simp
next
  case (Cons mid rest)
  show ?case
  proof (cases "find_one (\<lambda>m. model_id m = mid) (llm_models d)")
    case None
    then show ?thesis
      by (simp add: Cons.IH [OF Cons.prems] update_one_absent)
  next
    case (Some model)
    then have "\<bar>wins model\<bar> \<le> 2 ^ 63"
      using Cons.prems find_one_in_set by fastforce
    then obtain rate where r: "calculate_win_rate model = Inr rate"
      using calculate_win_rate_small by blast
    have eq: "update_one (\<lambda>m. model_id m = mid) (\<lambda>m. m\<lparr>win_rate := rate\<rparr>) (llm_models d)
          = update_one (\<lambda>m. model_id m = mid) recalculated (llm_models d)"
      by (rule update_one_cong_found [OF Some]) (simp add: recalculated_eq [OF r])
    have "\<forall>m\<in>set (update_one (\<lambda>m. model_id m = mid) recalculated (llm_models d)).
            \<bar>wins m\<bar> \<le> 2 ^ 63"
      by (rule update_one_pres [OF Cons.prems]) simp
    then show ?thesis
      using Some r eq by (simp add: Cons.IH)
  qed
qed

lemma submit_vote_eq:
  assumes "\<forall>m\<in>set (llm_models d). bson_counters m"
  shows "submit_vote uuid now vr d =
     (Inr \<lparr>success = True, message = ''Vote recorded successfully''\<rparr>,
      d\<lparr>llm_models := cast_vote vr (llm_models d),
        votes := votes d @
          [\<lparr>vote_id = uuid, vote_winner_id = winner_id vr, vote_loser_id = loser_id vr,
            voter_ip = None, timestamp = now\<rparr>]\<rparr>)"
proof -
  define d3 where "d3 =
    d\<lparr>votes := votes d @
         [\<lparr>vote_id = uuid, vote_winner_id = winner_id vr, vote_loser_id = loser_id vr,
           voter_ip = None, timestamp = now\<rparr>],
      llm_models :=
        update_one (\<lambda>m. model_id m = loser_id vr) loser_update
          (update_one (\<lambda>m. model_id m = winner_id vr) winner_update (llm_models d))\<rparr>"
  have "\<forall>m\<in>set (llm_models d). bson_int64 (wins m)"
    using assms unfolding bson_counters_def by blast
  then have "\<forall>m\<in>set (update_one (\<lambda>m. model_id m = winner_id vr) winner_update (llm_models d)).
      \<bar>wins m\<bar> \<le> 2 ^ 63"
    by (rule update_one_pres2) (auto simp: bson_int64_def)
  then have "\<forall>m\<in>set (update_one (\<lambda>m. model_id m = loser_id vr) loser_update
        (update_one (\<lambda>m. model_id m = winner_id vr) winner_update (llm_models d))).
      \<bar>wins m\<bar> \<le> 2 ^ 63"
    by (rule update_one_pres) simp
  then have small: "\<forall>m\<in>set (llm_models d3). \<bar>wins m\<bar> \<le> 2 ^ 63"
    by (simp add: d3_def)
  have "recalculate [winner_id vr, loser_id vr] d3 =
     (Inr (), d3\<lparr>llm_models :=
                 foldl (\<lambda>coll mid. update_one (\<lambda>m. model_id m = mid) recalculated coll)
                   (llm_models d3) [winner_id vr, loser_id vr]\<rparr>)"
    by (rule recalculate_eq [OF small])
  moreover have "submit_vote uuid now vr d =
     (case recalculate [winner_id vr, loser_id vr] d3 of
        (Inl e, d4) \<Rightarrow> (handle_500 (Inl e), d4)
      | (Inr u, d4) \<Rightarrow>
          (handle_500 (Inr \<lparr>success = True, message = ''Vote recorded successfully''\<rparr>),
           d4))"
    by (simp add: submit_vote_def d3_def insert_one_def Let_def del: recalculate.simps)
  ultimately show ?thesis
    by (simp add: d3_def cast_vote_def del: recalculate.simps)
qed

lemma bson_lt_Finite [simp]: "bson_lt (Finite x) (Finite y) \<longleftrightarrow> x < y"
  by (simp add: bson_lt_def)

lemma bson_lt_total: "x \<noteq> y \<Longrightarrow> bson_lt x y \<or> bson_lt y x"
  by (cases x; cases y) (auto simp: bson_lt_def)

lemma bson_lt_trans: "bson_lt x y \<Longrightarrow> bson_lt y z \<Longrightarrow> bson_lt x z"
  by (cases x; cases y; cases z) (auto simp: bson_lt_def)

lemma bson_lt_irrefl [simp]: "\<not> bson_lt x x"
  by (simp add: bson_lt_def)

lemma sort_le_total: "sort_le ks a b \<or> sort_le ks b a"
proof (induction ks)
  case Nil
  show ?case by simp
next
  case (Cons k ks)
  obtain field direction where k: "k = (field, direction)"
    by (cases k)
  show ?case
    using Cons bson_lt_total [of "field a" "field b"] by (auto simp: k)
qed

lemma sort_le_trans: "sort_le ks a b \<Longrightarrow> sort_le ks b c \<Longrightarrow> sort_le ks a c"
proof (induction ks)
  case Nil
  show ?case by simp
next
  case (Cons k ks)
  obtain field direction where k: "k = (field, direction)"
    by (cases k)
  have less: "bson_lt x z \<and> x \<noteq> z" if "bson_lt x y" "bson_lt y z" for x y z
    using bson_lt_trans [OF that] bson_lt_irrefl by metis
  have neq: "x \<noteq> y" if "bson_lt x y" for x y
    using that by auto
  show ?case
    using Cons.prems Cons.IH
      less [of "field a" "field b" "field c"] less [of "field c" "field b" "field a"]
      neq [of "field a" "field b"] neq [of "field b" "field a"]
      neq [of "field b" "field c"] neq [of "field c" "field b"]
    by (auto simp: k split: if_splits)
qed

lemma mset_sort_insert: "mset (sort_insert le x xs) = add_mset x (mset xs)"
  by (induction xs) auto

lemma set_sort_insert: "set (sort_insert le x xs) = insert x (set xs)"
  by (induction xs) auto

lemma sorted_sort_insert:
  assumes total: "\<And>a b. le a b \<or> le b a" and trans: "\<And>a b c. le a b \<Longrightarrow> le b c \<Longrightarrow> le a c"
  shows "sorted_wrt le xs \<Longrightarrow> sorted_wrt le (sort_insert le x xs)"
proof (induction xs)
  case Nil
  show ?case by simp
next
  case (Cons y ys)
  show ?case
  proof (cases "le x y")
    case True
    with Cons.prems show ?thesis
      by (auto intro: trans)
  next
    case False
    with total have "le y x" by blast
    with False Cons show ?thesis
      by (auto simp: set_sort_insert)
  qed
qed

lemma mongo_sort_Cons:
  "mongo_sort ks (x # xs) = sort_insert (sort_le ks) x (mongo_sort ks xs)"
  by (simp add: mongo_sort_def)

lemma mset_mongo_sort: "mset (mongo_sort ks xs) = mset xs"
  by (induction xs) (simp_all add: mongo_sort_Cons mset_sort_insert, simp add: mongo_sort_def)

lemma length_mongo_sort: "length (mongo_sort ks xs) = length xs"
  using mset_mongo_sort [of ks xs] by (metis size_mset)

lemma set_mongo_sort: "set (mongo_sort ks xs) = set xs"
  using mset_mongo_sort [of ks xs] by (metis set_mset_mset)

lemma sorted_mongo_sort: "sorted_wrt (sort_le ks) (mongo_sort ks xs)"
proof (induction xs)
  case Nil
  show ?case by (simp add: mongo_sort_def)
next
  case (Cons x xs)
  show ?case
    unfolding mongo_sort_Cons
    by (rule sorted_sort_insert [OF sort_le_total _ Cons.IH]) (rule sort_le_trans)
qed

lemma leaderboard_order:
  "sort_le [(\<lambda>m. Finite (of_int (wins m)), - 1), (win_rate, - 1)] a b
     \<longleftrightarrow> wins b < wins a \<or> (wins a = wins b \<and> bson_le (win_rate b) (win_rate a))"
  by (auto simp: bson_le_def)

lemma top_order: "sort_le [(\<lambda>m. Finite (of_int (wins m)), - 1)] a b \<longleftrightarrow> wins b \<le> wins a"
  by auto

lemma seed_loop_eq:
  "seed_loop uuid4 utcnow i ds coll
     = coll @ map (\<lambda>(k, md). new_LLMModel (uuid4 k) (utcnow k) md) (enumerate i ds)"
  by (induction ds arbitrary: i coll) (simp_all add: insert_one_def)

lemma new_LLMModel_fields [simp]:
  "total_votes (new_LLMModel u t md) = 0"
  "wins (new_LLMModel u t md) = 0"
  "losses (new_LLMModel u t md) = 0"
  "win_rate (new_LLMModel u t md) = Finite 0"
  "model_id (new_LLMModel u t md) = u"
  by (cases md; simp)+

lemma length_models: "length models = 8"
  by (simp add: models_def)

lemma str_nat_8: "str_nat 8 = ''8''"
  by code_simp

lemma seed_models_eq:
  "seed_models uuid4 utcnow d =
     (Inr \<lparr>success = True, message = ''Seeded 8 LLM models''\<rparr>,
      d\<lparr>llm_models :=
          map (\<lambda>(k, md). new_LLMModel (uuid4 k) (utcnow k) md) (enumerate 0 models)\<rparr>)"
  by (simp add: seed_models_def seed_loop_eq length_models str_nat_8 del: str_nat.simps)

lemma get_battle_stats_eq:
  "get_battle_stats d =
     (Inr \<lparr>stats_total_votes = length (votes d), total_models = length (llm_models d),
           top_model =
             (case mongo_sort [(\<lambda>m. Finite (of_int (wins m)), - 1)] (llm_models d) of
                [] \<Rightarrow> None
              | m # rest \<Rightarrow> Some (name m)),
           battles_completed = length (votes d)\<rparr>,
      d)"
  by (simp add: get_battle_stats_def count_documents_def to_list_def limit_def Let_def
      split: list.split)

lemma get_leaderboard_eq:
  "get_leaderboard d =
     (Inr (take 1000
            (mongo_sort [(\<lambda>m. Finite (of_int (wins m)), - 1), (win_rate, - 1)] (llm_models d))),
      d)"
  by (simp add: get_leaderboard_def to_list_def)

lemma submit_vote_counts_ok:
  assumes "\<forall>m\<in>set (llm_models d). counts_ok m"
  shows "\<forall>m\<in>set (llm_models (snd (submit_vote uuid now vr d))). counts_ok m"
proof -
  obtain f g where fg: "\<forall>m. only_win_rate m (f m)" "\<forall>m. only_win_rate m (g m)"
    and eq: "llm_models (snd (submit_vote uuid now vr d))
       = update_one (\<lambda>m. model_id m = loser_id vr) g
           (update_one (\<lambda>m. model_id m = winner_id vr) f
             (update_one (\<lambda>m. model_id m = loser_id vr) loser_update
               (update_one (\<lambda>m. model_id m = winner_id vr) winner_update (llm_models d))))"
    using submit_vote_shape [of uuid now vr d] by blast
  have keep: "counts_ok (h x)" if "counts_ok x" "\<forall>m. only_win_rate m (h m)" for h x
    using that only_win_rate_fields [of x "h x"] by (simp add: counts_ok_def)
  show ?thesis
    unfolding eq
    by (intro update_one_pres assms) (simp_all add: keep fg, simp_all add: counts_ok_def)
qed

lemma counts_le_trans: "counts_le a b \<Longrightarrow> counts_le b c \<Longrightarrow> counts_le a c"
  by (auto simp: counts_le_def)

lemma update_one_counts_le:
  "(\<And>x. counts_le x (f x)) \<Longrightarrow> list_all2 counts_le xs (update_one p f xs)"
  by (rule update_one_all2) (simp_all add: counts_le_def)

lemma all2_counts_le_trans:
  "list_all2 counts_le xs ys \<Longrightarrow> list_all2 counts_le ys zs \<Longrightarrow> list_all2 counts_le xs zs"
  using list_all2_trans [of counts_le counts_le counts_le xs ys zs] counts_le_trans by blast

lemma update_one_counts_le_step:
  "list_all2 counts_le xs ys \<Longrightarrow> (\<And>x. counts_le x (f x)) \<Longrightarrow>
     list_all2 counts_le xs (update_one p f ys)"
  by (erule all2_counts_le_trans) (rule update_one_counts_le)

lemma submit_vote_counts_le:
  "list_all2 counts_le (llm_models d) (llm_models (snd (submit_vote uuid now vr d)))"
proof -
  obtain f g where fg: "\<forall>m. only_win_rate m (f m)" "\<forall>m. only_win_rate m (g m)"
    and eq: "llm_models (snd (submit_vote uuid now vr d))
       = update_one (\<lambda>m. model_id m = loser_id vr) g
           (update_one (\<lambda>m. model_id m = winner_id vr) f
             (update_one (\<lambda>m. model_id m = loser_id vr) loser_update
               (update_one (\<lambda>m. model_id m = winner_id vr) winner_update (llm_models d))))"
    using submit_vote_shape [of uuid now vr d] by blast
  have keep: "counts_le x (h x)" if "\<forall>m. only_win_rate m (h m)" for h x
    using that only_win_rate_fields [of x "h x"] by (simp add: counts_le_def)
  have "list_all2 counts_le (llm_models d) (llm_models d)"
    by (simp add: list_all2_refl counts_le_def)
  then show ?thesis
    unfolding eq
    by (intro update_one_counts_le_step) (simp_all add: keep fg, simp_all add: counts_le_def)
qed

lemma submit_vote_ids:
  "map model_id (llm_models (snd (submit_vote uuid now vr d))) = map model_id (llm_models d)"
proof -
  obtain f g where fg: "\<forall>m. only_win_rate m (f m)" "\<forall>m. only_win_rate m (g m)"
    and eq: "llm_models (snd (submit_vote uuid now vr d))
       = update_one (\<lambda>m. model_id m = loser_id vr) g
           (update_one (\<lambda>m. model_id m = winner_id vr) f
             (update_one (\<lambda>m. model_id m = loser_id vr) loser_update
               (update_one (\<lambda>m. model_id m = winner_id vr) winner_update (llm_models d))))"
    using submit_vote_shape [of uuid now vr d] by blast
  have keep: "model_id (h x) = model_id x" if "\<forall>m. only_win_rate m (h m)" for h x
    using that only_win_rate_fields [of x "h x"] by simp
  show ?thesis
    unfolding eq by (simp add: map_update_one keep fg)
qed

lemma submit_votes_snoc:
  "submit_votes (vs @ [(uuid, now, vr)]) d = snd (submit_vote uuid now vr (submit_votes vs d))"
  by (induction vs arbitrary: d) auto

lemma submit_votes_counts_ok:
  "\<forall>m\<in>set (llm_models d). counts_ok m \<Longrightarrow> \<forall>m\<in>set (llm_models (submit_votes vs d)). counts_ok m"
proof (induction vs arbitrary: d)
  case Nil
  then show ?case by simp
next
  case (Cons v vs)
  obtain uuid now vr where v: "v = (uuid, now, vr)"
    by (cases v) auto
  have "\<forall>m\<in>set (llm_models (snd (submit_vote uuid now vr d))). counts_ok m"
    using submit_vote_counts_ok [OF Cons.prems] .
  then show ?case
    unfolding v by (simp add: Cons.IH)
qed

lemma submit_votes_ids:
  "map model_id (llm_models (submit_votes vs d)) = map model_id (llm_models d)"
proof (induction vs arbitrary: d)
  case Nil
  show ?case by simp
next
  case (Cons v vs)
  obtain uuid now vr where v: "v = (uuid, now, vr)"
    by (cases v) auto
  show ?case
    unfolding v by (simp add: Cons.IH submit_vote_ids)
qed

lemma seed_models_ids:
  "map model_id (llm_models (snd (seed_models uuid4 utcnow d))) = map uuid4 [0..<8]"
proof -
  have "map model_id (map (\<lambda>(k, md). new_LLMModel (uuid4 k) (utcnow k) md) (enumerate 0 ds))
      = map uuid4 [0..<length ds]" for ds :: "model_data list"
    by (simp add: enumerate_eq_zip map_zip_map2 [symmetric] comp_def case_prod_unfold)
       (simp add: map_fst_zip flip: map_map [of uuid4 fst, unfolded comp_def])
  then show ?thesis
    using length_models by (simp add: seed_models_eq)
qed

lemma win_rate_consistent_recalculated:
  "\<bar>wins m\<bar> \<le> 2 ^ 63 \<Longrightarrow> win_rate_consistent (recalculated m)"
  by (simp add: win_rate_consistent_def recalculated_def calculate_win_rate_small)

lemma recalculate_after:
  "(\<And>x. p x \<Longrightarrow> p (g x)) \<Longrightarrow> (\<And>x. p x \<Longrightarrow> x \<in> set xs \<Longrightarrow> \<bar>wins (g x)\<bar> \<le> 2 ^ 63) \<Longrightarrow>
   \<forall>m\<in>set xs. win_rate_consistent m \<Longrightarrow>
     \<forall>m\<in>set (update_one p recalculated (update_one p g xs)). win_rate_consistent m"
  by (induction xs) (auto simp: win_rate_consistent_recalculated)

lemma cast_vote_consistent:
  "\<forall>m\<in>set coll. win_rate_consistent m \<Longrightarrow> \<forall>m\<in>set coll. bson_int64 (wins m) \<Longrightarrow>
     \<forall>m\<in>set (cast_vote vr coll). win_rate_consistent m"
proof (induction coll)
  case Nil
  show ?case by (simp add: cast_vote_def)
next
  case (Cons x xs)
  from Cons.prems have xs: "\<forall>m\<in>set xs. win_rate_consistent m" and x: "win_rate_consistent x"
    and bxs: "\<forall>m\<in>set xs. bson_int64 (wins m)" and bx: "bson_int64 (wins x)"
    by simp_all
  note tail = Cons.IH [OF xs bxs]
  have small: "\<bar>wins m\<bar> \<le> 2 ^ 63 \<and> \<bar>wins m + 1\<bar> \<le> 2 ^ 63" if "m \<in> set (x # xs)" for m
    using that bx bxs bson_int64_small by auto
  have w: "\<forall>m\<in>set (update_one (\<lambda>m. model_id m = winner_id vr) recalculated
             (update_one (\<lambda>m. model_id m = winner_id vr) winner_update xs)). win_rate_consistent m"
    by (rule recalculate_after [OF _ _ xs]) (use small in auto)
  have l: "\<forall>m\<in>set (update_one (\<lambda>m. model_id m = loser_id vr) recalculated
             (update_one (\<lambda>m. model_id m = loser_id vr) loser_update xs)). win_rate_consistent m"
    by (rule recalculate_after [OF _ _ xs]) (use small in auto)
  have here: "win_rate_consistent (recalculated (winner_update x))"
    "win_rate_consistent (recalculated (loser_update x))"
    "win_rate_consistent (recalculated (recalculated (loser_update (winner_update x))))"
    using small [of x] by (simp_all add: win_rate_consistent_recalculated)
  show ?case
    using tail w l x xs here by (auto simp: cast_vote_def)
qed

lemma cast_vote_find_consistent:
  assumes "find_one (\<lambda>m. model_id m = i) (cast_vote vr coll) = Some m"
    and "i = winner_id vr \<or> i = loser_id vr"
    and "\<forall>m\<in>set coll. bson_int64 (wins m)"
  shows "win_rate_consistent m"
proof -
  let ?incs = "update_one (\<lambda>m. model_id m = loser_id vr) loser_update
              (update_one (\<lambda>m. model_id m = winner_id vr) winner_update coll)"
  let ?mid = "update_one (\<lambda>m. model_id m = winner_id vr) recalculated ?incs"
  have "\<forall>m\<in>set (update_one (\<lambda>m. model_id m = winner_id vr) winner_update coll).
      \<bar>wins m\<bar> \<le> 2 ^ 63"
    by (rule update_one_pres2 [OF assms(3)]) (auto simp: bson_int64_def)
  then have incs: "\<forall>m\<in>set ?incs. \<bar>wins m\<bar> \<le> 2 ^ 63"
    by (rule update_one_pres) simp
  then have mid: "\<forall>m\<in>set ?mid. \<bar>wins m\<bar> \<le> 2 ^ 63"
    by (rule update_one_pres) simp
  have "\<exists>z. m = recalculated z \<and> \<bar>wins z\<bar> \<le> 2 ^ 63"
  proof (cases "i = loser_id vr")
    case True
    have "find_one (\<lambda>m. model_id m = i) (cast_vote vr coll)
        = map_option recalculated (find_one (\<lambda>m. model_id m = i) ?mid)"
      unfolding cast_vote_def True by (intro find_one_update_same) simp
    with assms(1) obtain z where "find_one (\<lambda>m. model_id m = i) ?mid = Some z" "m = recalculated z"
      by (auto simp: map_option_case split: option.splits)
    then show ?thesis
      using mid find_one_in_set by fastforce
  next
    case False
    with assms(2) have i: "i = winner_id vr" by simp
    have "find_one (\<lambda>m. model_id m = i) (cast_vote vr coll)
        = find_one (\<lambda>m. model_id m = i) ?mid"
      unfolding cast_vote_def using False by (intro find_one_update_other) auto
    also have "\<dots> = map_option recalculated (find_one (\<lambda>m. model_id m = i) ?incs)"
      unfolding i by (intro find_one_update_same) simp
    finally obtain z where "find_one (\<lambda>m. model_id m = i) ?incs = Some z" "m = recalculated z"
      using assms(1) by (auto simp: map_option_case split: option.splits)
    then show ?thesis
      using incs find_one_in_set by fastforce
  qed
  then show ?thesis
    using win_rate_consistent_recalculated by blast
qed

lemma draw_unselected_Some:
  assumes "draw_unselected draws n s k = Some j"
  shows "j \<noteq> s \<and> (0 < n \<longrightarrow> j < n)"
  by (rule draw_unselected.raw_induct
        [where P = "\<lambda>draws n s k j. j \<noteq> s \<and> (0 < n \<longrightarrow> j < n)", OF _ assms])
     (auto split: if_splits)

lemma draw_unselected_returns:
  "draws k mod n \<noteq> s \<Longrightarrow> k0 \<le> k \<Longrightarrow> \<exists>j. draw_unselected draws n s k0 = Some j"
proof (induction "k - k0" arbitrary: k0)
  case 0
  then have "k0 = k" by simp
  with "0.prems"(1) show ?case
    by (subst draw_unselected.simps) simp
next
  case (Suc d)
  then have "d = k - Suc k0" "Suc k0 \<le> k"
    by simp_all
  from Suc.hyps(1) [OF this(1) Suc.prems(1) this(2)]
  show ?case
    by (subst draw_unselected.simps) simp
qed

lemma random_sample2_pool:
  assumes "2 \<le> length xs" and "length xs \<le> 21"
  shows "\<exists>i j. i < length xs \<and> j < length xs \<and> i \<noteq> j \<and>
           random_sample2 draws xs = Some (Inr [xs ! i, xs ! j])"
proof -
  let ?n = "length xs"
  let ?i = "draws 0 mod ?n"
  let ?j1 = "draws 1 mod (?n - 1)"
  let ?j = "if ?j1 = ?i then ?n - 1 else ?j1"
  have j1: "?j1 < ?n - 1"
    using assms(1) mod_less_divisor [of "?n - 1" "draws 1"] by linarith
  have i: "?i < ?n"
    using assms(1) mod_less_divisor [of ?n "draws 0"] by linarith
  have j: "?j < ?n"
  proof (cases "?j1 = ?i")
    case True
    then show ?thesis using assms(1) by simp
  next
    case False
    then show ?thesis using j1 by (simp only: if_False | linarith)+
  qed
  have ij: "?i \<noteq> ?j"
  proof (cases "?j1 = ?i")
    case True
    then show ?thesis using j1 by (simp only: if_True | linarith)+
  next
    case False
    then show ?thesis by (simp only: if_False | simp)+
  qed
  have "(xs[?i := xs ! (?n - 1)]) ! ?j1 = xs ! ?j"
    using nth_list_update [OF i, of "xs ! (?n - 1)" ?j1] by auto
  moreover have "\<not> ?n < 2"
    using assms(1) by linarith
  ultimately have "random_sample2 draws xs = Some (Inr [xs ! ?i, xs ! ?j])"
    unfolding random_sample2_def Let_def using assms(2) by (simp only: if_False if_True)
  with i j ij show ?thesis
    by blast
qed

lemma random_sample2_set:
  assumes "21 < length xs"
  shows "random_sample2 draws xs
           = map_option (\<lambda>j. Inr [xs ! (draws 0 mod length xs), xs ! j])
               (draw_unselected draws (length xs) (draws 0 mod length xs) 1)"
proof -
  have "\<not> length xs < 2" "\<not> length xs \<le> 21"
    using assms by linarith+
  then show ?thesis
    unfolding random_sample2_def Let_def
    by (simp only: if_False) (simp split: option.split)
qed

lemma random_sample2_safe:
  assumes "2 \<le> length xs" and "random_sample2 draws xs = Some r"
  shows "\<exists>i j. i < length xs \<and> j < length xs \<and> i \<noteq> j \<and> r = Inr [xs ! i, xs ! j]"
proof (cases "length xs \<le> 21")
  case True
  from random_sample2_pool [OF assms(1) True, of draws] assms(2) show ?thesis
    by auto
next
  case False
  then have big: "21 < length xs" by simp
  from assms(2) obtain j
    where j: "draw_unselected draws (length xs) (draws 0 mod length xs) 1 = Some j"
      and r: "r = Inr [xs ! (draws 0 mod length xs), xs ! j]"
    unfolding random_sample2_set [OF big] by auto
  have "draws 0 mod length xs < length xs"
    using big mod_less_divisor [of "length xs" "draws 0"] by linarith
  moreover have "j \<noteq> draws 0 mod length xs" "j < length xs"
    using draw_unselected_Some [OF j] big by auto
  ultimately show ?thesis
    using r by blast
qed

lemma random_sample2_returns:
  assumes "2 \<le> length xs"
    and "21 < length xs \<longrightarrow> (\<exists>k>0. draws k mod length xs \<noteq> draws 0 mod length xs)"
  shows "\<exists>r. random_sample2 draws xs = Some r"
proof (cases "length xs \<le> 21")
  case True
  from random_sample2_pool [OF assms(1) True, of draws] show ?thesis
    by blast
next
  case False
  then have big: "21 < length xs" by simp
  with assms(2) obtain k where "0 < k" "draws k mod length xs \<noteq> draws 0 mod length xs"
    by blast
  then obtain j where "draw_unselected draws (length xs) (draws 0 mod length xs) 1 = Some j"
    using draw_unselected_returns [of draws k "length xs" "draws 0 mod length xs" 1] by auto
  then show ?thesis
    by (simp add: random_sample2_set [OF big])
qed

lemma get_battle_few:
  "length (llm_models d) < 2 \<Longrightarrow>
     get_battle draws d
       = Some (Inl (HTTPException 500
                     (Str (HTTPException 400 (Text ''Need at least 2 models to battle'')))),
               d)"
  by (simp add: get_battle_def to_list_def)

lemma get_battle_many:
  assumes "2 \<le> length (llm_models d)"
  shows "get_battle draws d =
     (case random_sample2 draws (take 1000 (llm_models d)) of
        None \<Rightarrow> None
      | Some (Inl e) \<Rightarrow> Some (Inl (HTTPException 500 (Str e)), d)
      | Some (Inr selected_models) \<Rightarrow>
          Some (Inr \<lparr>model1 = selected_models ! 0, model2 = selected_models ! 1\<rparr>, d))"
proof -
  have "\<not> length (take 1000 (llm_models d)) < 2"
    using assms by simp
  then show ?thesis
    unfolding get_battle_def to_list_def Let_def
    by (simp only: if_False) (simp split: option.split sum.split)
qed

lemma get_battle_safe:
  assumes "get_battle draws d = Some (r, d')"
  shows "d' = d \<and>
    (\<forall>b. r = Inr b \<longrightarrow>
       (\<exists>i j. i < length (llm_models d) \<and> j < length (llm_models d) \<and> i \<noteq> j \<and>
          b = \<lparr>model1 = llm_models d ! i, model2 = llm_models d ! j\<rparr>))"
proof (cases "length (llm_models d) < 2")
  case True
  with assms show ?thesis
    by (auto simp: get_battle_few)
next
  case False
  then have len: "2 \<le> length (llm_models d)" by simp
  let ?ms = "take 1000 (llm_models d)"
  have len': "2 \<le> length ?ms"
    using len by simp
  from assms obtain s where s: "random_sample2 draws ?ms = Some s"
    unfolding get_battle_many [OF len] by (auto split: option.splits)
  from random_sample2_safe [OF len' s] obtain i j
    where ij: "i < length ?ms" "j < length ?ms" "i \<noteq> j" and sv: "s = Inr [?ms ! i, ?ms ! j]"
    by blast
  from assms have "d' = d" and "r = Inr \<lparr>model1 = llm_models d ! i, model2 = llm_models d ! j\<rparr>"
    unfolding get_battle_many [OF len] s sv using ij by auto
  with ij show ?thesis
    by auto
qed

lemma example_db_bson: "\<forall>m\<in>set (llm_models example_db). bson_counters m"
  by (simp add: example_db_def example_model_def bson_counters_def bson_int64_def)

lemma example_vote_rates:
  "map win_rate
     (llm_models (snd (submit_vote ''v1'' 7 \<lparr>winner_id = ''a'', loser_id = ''b''\<rparr> example_db)))
   = [Finite 100, Finite 0]"
  by code_simp

lemma example_pool_battle:
  "get_battle example_draws example_voted_db
     = Some (Inr \<lparr>model1 = example_model ''a'' 1 1 0 (Finite 100),
                  model2 = example_model ''b'' 3 1 2 (fl (333 / 10))\<rparr>,
             example_voted_db)"
  by code_simp

lemma example_large_battle:
  "get_battle example_draws example_large_db
     = Some (Inr \<lparr>model1 = example_model ''3'' 0 0 0 (Finite 0),
                  model2 = example_model ''24'' 0 0 0 (Finite 0)\<rparr>,
             example_large_db)"
proof -
  let ?ms = "take 1000 (llm_models example_large_db)"
  have len: "length ?ms = 1000"
    by (simp add: example_large_db_def)
  have big: "21 < length ?ms"
    by (simp add: example_large_db_def)
  have draw: "draw_unselected example_draws 1000 3 1 = Some 24"
    by (subst draw_unselected.simps, simp add: example_draws_def)+
  have "random_sample2 example_draws ?ms
      = map_option (\<lambda>j. Inr [?ms ! (example_draws 0 mod length ?ms), ?ms ! j])
          (draw_unselected example_draws (length ?ms) (example_draws 0 mod length ?ms) 1)"
    by (rule random_sample2_set [OF big])
  also have "\<dots> = Some (Inr [?ms ! 3, ?ms ! 24])"
    unfolding len using draw by (simp add: example_draws_def)
  finally have "random_sample2 example_draws ?ms = Some (Inr [?ms ! 3, ?ms ! 24])" .
  moreover have "?ms ! 3 = example_model ''3'' 0 0 0 (Finite 0)"
  proof -
    have "str_nat 3 = ''3''" by code_simp
    then show ?thesis by (simp add: example_large_db_def del: str_nat.simps)
  qed
  moreover have "?ms ! 24 = example_model ''24'' 0 0 0 (Finite 0)"
  proof -
    have "str_nat 24 = ''24''" by code_simp
    then show ?thesis by (simp add: example_large_db_def del: str_nat.simps)
  qed
  moreover have "2 \<le> length (llm_models example_large_db)"
    by (simp add: example_large_db_def)
  ultimately show ?thesis
    by (simp add: get_battle_many)
qed

section \<open>The claims of the specification\<close>

text \<open>
  Claim C1, as amended. The specification says that a vote whose winner and loser are the
  same id fails with \<open>InvalidVote\<close> before any write. The route compares the two ids
  nowhere. A vote with equal ids appends one record to the ledger and leaves every
  document with another id as it was; where the stored counters are BSON 64-bit integers
  it returns the success response.
\<close>

theorem submit_vote_equal_ids:
  "winner_id vr = loser_id vr \<Longrightarrow>
     ((\<forall>m\<in>set (llm_models d). bson_counters m) \<longrightarrow>
        fst (submit_vote uuid now vr d)
          = Inr \<lparr>success = True, message = ''Vote recorded successfully''\<rparr>) \<and>
     votes (snd (submit_vote uuid now vr d))
       = votes d @ [\<lparr>vote_id = uuid, vote_winner_id = winner_id vr,
                     vote_loser_id = loser_id vr, voter_ip = None, timestamp = now\<rparr>] \<and>
     filter (\<lambda>m. model_id m \<noteq> winner_id vr) (llm_models (snd (submit_vote uuid now vr d)))
       = filter (\<lambda>m. model_id m \<noteq> winner_id vr) (llm_models d)"
proof -
  assume same: "winner_id vr = loser_id vr"
  obtain f g where fg: "\<forall>m. only_win_rate m (f m)" "\<forall>m. only_win_rate m (g m)"
    and eq: "llm_models (snd (submit_vote uuid now vr d))
       = update_one (\<lambda>m. model_id m = loser_id vr) g
           (update_one (\<lambda>m. model_id m = winner_id vr) f
             (update_one (\<lambda>m. model_id m = loser_id vr) loser_update
               (update_one (\<lambda>m. model_id m = winner_id vr) winner_update (llm_models d))))"
    and ledger: "votes (snd (submit_vote uuid now vr d))
       = votes d @ [\<lparr>vote_id = uuid, vote_winner_id = winner_id vr,
                     vote_loser_id = loser_id vr, voter_ip = None, timestamp = now\<rparr>]"
    using submit_vote_shape [of uuid now vr d] by blast
  have keep: "model_id (h x) = model_id x" if "\<forall>m. only_win_rate m (h m)" for h x
    using that only_win_rate_fields [of x "h x"] by simp
  have "filter (\<lambda>m. model_id m \<noteq> winner_id vr) (llm_models (snd (submit_vote uuid now vr d)))
       = filter (\<lambda>m. model_id m \<noteq> winner_id vr) (llm_models d)"
    unfolding eq same by (simp add: filter_update_one keep fg)
  with ledger show ?thesis
    by (simp add: submit_vote_eq)
qed

theorem submit_vote_equal_ids_witness:
  "winner_id \<lparr>winner_id = ''a'', loser_id = ''a''\<rparr> = loser_id \<lparr>winner_id = ''a'', loser_id = ''a''\<rparr> \<and>
   list_all bson_counters (llm_models example_db) \<and>
   fst (submit_vote ''v1'' 7 \<lparr>winner_id = ''a'', loser_id = ''a''\<rparr> example_db)
     = Inr \<lparr>success = True, message = ''Vote recorded successfully''\<rparr> \<and>
   votes (snd (submit_vote ''v1'' 7 \<lparr>winner_id = ''a'', loser_id = ''a''\<rparr> example_db))
     = [\<lparr>vote_id = ''v1'', vote_winner_id = ''a'', vote_loser_id = ''a'', voter_ip = None,
         timestamp = 7\<rparr>] \<and>
   filter (\<lambda>m. model_id m \<noteq> ''a'')
       (llm_models (snd (submit_vote ''v1'' 7 \<lparr>winner_id = ''a'', loser_id = ''a''\<rparr> example_db)))
     = [example_model ''b'' 0 0 0 (Finite 0)]"
  using submit_vote_equal_ids [of "\<lparr>winner_id = ''a'', loser_id = ''a''\<rparr>" example_db "''v1''" 7]
    example_db_bson
  by (simp add: list_all_iff) (simp add: example_db_def example_model_def)

text \<open>
  The claim as the specification states it fails on the two-entity store: the vote of
  \<open>a\<close> against \<open>a\<close> does not fail, the ledger grows and the counters of \<open>a\<close> change.
\<close>

theorem submit_vote_equal_ids_counterexample:
  "\<not> isl (fst (submit_vote ''v1'' 7 \<lparr>winner_id = ''a'', loser_id = ''a''\<rparr> example_db)) \<and>
   votes (snd (submit_vote ''v1'' 7 \<lparr>winner_id = ''a'', loser_id = ''a''\<rparr> example_db))
     \<noteq> votes example_db \<and>
   map total_votes
       (llm_models (snd (submit_vote ''v1'' 7 \<lparr>winner_id = ''a'', loser_id = ''a''\<rparr> example_db)))
     \<noteq> map total_votes (llm_models example_db)"
  by (simp add: submit_vote_eq [OF example_db_bson] cast_vote_def)
     (simp add: example_db_def example_model_def)

text \<open>
  Claim C2. After every completed update the stored win rate of every entity equals
  \<^verbatim>\<open>round(wins / total_votes * 100, 1)\<close> when \<open>total_votes > 0\<close> and \<open>0.0\<close> when
  \<open>total_votes = 0\<close>: seeding establishes it for the whole catalog; on a store whose
  counters are BSON 64-bit integers a vote keeps it for the whole catalog, and the
  winner's and the loser's documents satisfy it after the vote whatever they held before.
\<close>

theorem win_rate_always_consistent:
  "(\<forall>m\<in>set (llm_models (snd (seed_models uuid4 utcnow d0))). win_rate_consistent m) \<and>
   ((\<forall>m\<in>set (llm_models d). bson_counters m) \<longrightarrow>
      ((\<forall>m\<in>set (llm_models d). win_rate_consistent m) \<longrightarrow>
         (\<forall>m\<in>set (llm_models (snd (submit_vote uuid now vr d))). win_rate_consistent m)) \<and>
      (\<forall>m. find_one (\<lambda>m. model_id m = winner_id vr)
              (llm_models (snd (submit_vote uuid now vr d))) = Some m \<or>
            find_one (\<lambda>m. model_id m = loser_id vr)
              (llm_models (snd (submit_vote uuid now vr d))) = Some m \<longrightarrow>
            win_rate_consistent m))"
proof (intro conjI impI allI)
  show "\<forall>m\<in>set (llm_models (snd (seed_models uuid4 utcnow d0))). win_rate_consistent m"
    by (auto simp: seed_models_eq win_rate_consistent_def)
next
  assume bson: "\<forall>m\<in>set (llm_models d). bson_counters m"
    and ok: "\<forall>m\<in>set (llm_models d). win_rate_consistent m"
  from bson have "\<forall>m\<in>set (llm_models d). bson_int64 (wins m)"
    unfolding bson_counters_def by blast
  from cast_vote_consistent [OF ok this, of vr]
  show "\<forall>m\<in>set (llm_models (snd (submit_vote uuid now vr d))). win_rate_consistent m"
    by (simp add: submit_vote_eq [OF bson])
next
  fix m
  assume bson: "\<forall>m\<in>set (llm_models d). bson_counters m"
    and found: "find_one (\<lambda>m. model_id m = winner_id vr)
              (llm_models (snd (submit_vote uuid now vr d))) = Some m \<or>
            find_one (\<lambda>m. model_id m = loser_id vr)
              (llm_models (snd (submit_vote uuid now vr d))) = Some m"
  from bson have "\<forall>m\<in>set (llm_models d). bson_int64 (wins m)"
    unfolding bson_counters_def by blast
  with found show "win_rate_consistent m"
    by (auto simp: submit_vote_eq [OF bson] intro: cast_vote_find_consistent)
qed

theorem win_rate_always_consistent_witness:
  "list_all bson_counters (llm_models example_db) \<and>
   list_all win_rate_consistent (llm_models example_db) \<and>
   list_all win_rate_consistent
     (llm_models (snd (submit_vote ''v1'' 7 \<lparr>winner_id = ''a'', loser_id = ''b''\<rparr> example_db))) \<and>
   map win_rate
     (llm_models (snd (submit_vote ''v1'' 7 \<lparr>winner_id = ''a'', loser_id = ''b''\<rparr> example_db)))
   = [Finite 100, Finite 0]"
proof -
  have "list_all win_rate_consistent (llm_models example_db)"
    by (simp add: example_db_def example_model_def win_rate_consistent_def)
  then show ?thesis
    using win_rate_always_consistent [of str_nat "\<lambda>i. 0" example_db example_db "''v1''" 7
        "\<lparr>winner_id = ''a'', loser_id = ''b''\<rparr>"] example_vote_rates example_db_bson
    by (simp add: list_all_iff)
qed

text \<open>
  Claim C3. Seeding leaves every document with \<open>total_votes = wins + losses\<close> and
  non-negative counters. From any catalog with that property, after any sequence of votes
  handled one after the other every document still has it (the winner's and the loser's
  among them), and one more vote changes no id and decreases none of \<open>total_votes\<close>,
  \<open>wins\<close>, \<open>losses\<close> of any document.
\<close>

theorem votes_keep_counts:
  "(\<forall>m\<in>set (llm_models (snd (seed_models uuid4 utcnow d0))). counts_ok m) \<and>
   ((\<forall>m\<in>set (llm_models d). counts_ok m) \<longrightarrow>
      (\<forall>m\<in>set (llm_models (submit_votes vs d)). counts_ok m) \<and>
      list_all2 counts_le (llm_models (submit_votes vs d))
        (llm_models (submit_votes (vs @ [(uuid, now, vr)]) d)))"
proof (intro conjI impI)
  show "\<forall>m\<in>set (llm_models (snd (seed_models uuid4 utcnow d0))). counts_ok m"
    by (auto simp: seed_models_eq counts_ok_def)
next
  assume "\<forall>m\<in>set (llm_models d). counts_ok m"
  then show "\<forall>m\<in>set (llm_models (submit_votes vs d)). counts_ok m"
    by (rule submit_votes_counts_ok)
next
  show "list_all2 counts_le (llm_models (submit_votes vs d))
        (llm_models (submit_votes (vs @ [(uuid, now, vr)]) d))"
    by (simp add: submit_votes_snoc submit_vote_counts_le)
qed

theorem votes_keep_counts_witness:
  "list_all counts_ok (llm_models example_db) \<and>
   list_all counts_ok
     (llm_models (submit_votes [(''v1'', 7, \<lparr>winner_id = ''a'', loser_id = ''b''\<rparr>)] example_db)) \<and>
   list_all2 counts_le
     (llm_models (submit_votes [(''v1'', 7, \<lparr>winner_id = ''a'', loser_id = ''b''\<rparr>)] example_db))
     (llm_models (submit_votes ([(''v1'', 7, \<lparr>winner_id = ''a'', loser_id = ''b''\<rparr>)]
        @ [(''v2'', 8, \<lparr>winner_id = ''b'', loser_id = ''a''\<rparr>)]) example_db)) \<and>
   map (\<lambda>m. (total_votes m, wins m, losses m))
     (llm_models (submit_votes ([(''v1'', 7, \<lparr>winner_id = ''a'', loser_id = ''b''\<rparr>)]
        @ [(''v2'', 8, \<lparr>winner_id = ''b'', loser_id = ''a''\<rparr>)]) example_db))
   = [(2, 1, 1), (2, 1, 1)]"
proof -
  have "map (\<lambda>m. (total_votes m, wins m, losses m))
     (llm_models (submit_votes ([(''v1'', 7, \<lparr>winner_id = ''a'', loser_id = ''b''\<rparr>)]
        @ [(''v2'', 8, \<lparr>winner_id = ''b'', loser_id = ''a''\<rparr>)]) example_db))
   = [(2, 1, 1), (2, 1, 1)]"
    by code_simp
  moreover have "list_all counts_ok (llm_models example_db)"
    by (simp add: example_db_def example_model_def counts_ok_def)
  ultimately show ?thesis
    using votes_keep_counts [of str_nat "\<lambda>i. 0" example_db example_db
        "[(''v1'', 7, \<lparr>winner_id = ''a'', loser_id = ''b''\<rparr>)]"
        "''v2''" 8 "\<lparr>winner_id = ''b'', loser_id = ''a''\<rparr>"]
    by (simp add: list_all_iff del: submit_votes.simps)
qed

text \<open>
  Claim C4. Seeding replaces the catalog by the eight seed entities, each with
  \<open>total_votes = wins = losses = 0\<close> and win rate \<open>0.0\<close>, whatever the catalog held, and
  leaves the ledger as it was: the statistics read after a reseed report the ledger count
  from before it.
\<close>

theorem seed_models_resets_catalog:
  "fst (seed_models uuid4 utcnow d)
     = Inr \<lparr>success = True, message = ''Seeded 8 LLM models''\<rparr> \<and>
   llm_models (snd (seed_models uuid4 utcnow d))
     = map (\<lambda>(i, md). new_LLMModel (uuid4 i) (utcnow i) md) (enumerate 0 models) \<and>
   length (llm_models (snd (seed_models uuid4 utcnow d))) = 8 \<and>
   (\<forall>m\<in>set (llm_models (snd (seed_models uuid4 utcnow d))).
      total_votes m = 0 \<and> wins m = 0 \<and> losses m = 0 \<and> win_rate m = Finite 0) \<and>
   votes (snd (seed_models uuid4 utcnow d)) = votes d \<and>
   map_sum id stats_total_votes (fst (get_battle_stats (snd (seed_models uuid4 utcnow d))))
     = Inr (length (votes d))"
  by (auto simp: seed_models_eq length_models get_battle_stats_eq)

theorem seed_models_resets_catalog_witness:
  "map name (llm_models (snd (seed_models str_nat (\<lambda>i. 100 + i) example_voted_db)))
     = [''GPT-4'', ''Claude 4 Sonnet'', ''Gemini 2.5 Pro'', ''Claude 4 Haiku'', ''Llama 3.3'',
        ''Mistral Large'', ''PaLM 2'', ''GPT-3.5 Turbo''] \<and>
   list_all (\<lambda>m. total_votes m = 0 \<and> wins m = 0 \<and> losses m = 0 \<and> win_rate m = Finite 0)
     (llm_models (snd (seed_models str_nat (\<lambda>i. 100 + i) example_voted_db))) \<and>
   votes (snd (seed_models str_nat (\<lambda>i. 100 + i) example_voted_db)) = votes example_voted_db \<and>
   map_sum id stats_total_votes
       (fst (get_battle_stats (snd (seed_models str_nat (\<lambda>i. 100 + i) example_voted_db))))
     = Inr 3"
  using seed_models_resets_catalog [of str_nat "\<lambda>i. 100 + i" example_voted_db]
  by (simp add: models_def example_voted_db_def enumerate_eq_zip upt_rec list_all_iff
      del: str_nat.simps)

text \<open>
  Claim C5. With fewer than two entities in the catalog \<^verbatim>\<open>get_battle\<close> fails: the
  status-400 exception it raises is caught by the route's own handler and leaves as a
  status-500 exception. Otherwise it returns the documents at two different positions of
  the catalog, with different ids when ids are unique in the catalog. Up to 21 entities
  it always returns; above 21 the second position is drawn again while it repeats the
  first, and the route returns as soon as a draw differs. Whatever it returns, the store
  is unchanged and a returned pair sits at two different positions. Ids are unique in
  every catalog seeded with distinct uuids and then voted on.
\<close>

theorem get_battle_pair:
  "(length (llm_models d) < 2 \<longrightarrow>
      get_battle draws d
        = Some (Inl (HTTPException 500
                      (Str (HTTPException 400 (Text ''Need at least 2 models to battle'')))),
                d)) \<and>
   (2 \<le> length (llm_models d) \<and>
    (21 < length (llm_models d) \<longrightarrow>
       (\<exists>k>0. draws k mod min (length (llm_models d)) 1000
               \<noteq> draws 0 mod min (length (llm_models d)) 1000)) \<longrightarrow>
      (\<exists>i j. i < length (llm_models d) \<and> j < length (llm_models d) \<and> i \<noteq> j \<and>
         get_battle draws d
           = Some (Inr \<lparr>model1 = llm_models d ! i, model2 = llm_models d ! j\<rparr>, d) \<and>
         (distinct (map model_id (llm_models d)) \<longrightarrow>
            model_id (llm_models d ! i) \<noteq> model_id (llm_models d ! j)))) \<and>
   (\<forall>r d'. get_battle draws d = Some (r, d') \<longrightarrow>
      d' = d \<and>
      (\<forall>b. r = Inr b \<longrightarrow>
         (\<exists>i j. i < length (llm_models d) \<and> j < length (llm_models d) \<and> i \<noteq> j \<and>
            b = \<lparr>model1 = llm_models d ! i, model2 = llm_models d ! j\<rparr>))) \<and>
   (inj_on uuid4 {..<8} \<longrightarrow>
      distinct (map model_id
        (llm_models (submit_votes vs (snd (seed_models uuid4 utcnow d0))))))"
proof (intro conjI impI allI)
  assume "length (llm_models d) < 2"
  then show "get_battle draws d
        = Some (Inl (HTTPException 500
                      (Str (HTTPException 400 (Text ''Need at least 2 models to battle'')))),
                d)"
    by (rule get_battle_few)
next
  assume hyp: "2 \<le> length (llm_models d) \<and>
    (21 < length (llm_models d) \<longrightarrow>
       (\<exists>k>0. draws k mod min (length (llm_models d)) 1000
               \<noteq> draws 0 mod min (length (llm_models d)) 1000))"
  then have len: "2 \<le> length (llm_models d)" by simp
  let ?ms = "take 1000 (llm_models d)"
  have len': "2 \<le> length ?ms"
    using len by simp
  have "21 < length ?ms \<longrightarrow> (\<exists>k>0. draws k mod length ?ms \<noteq> draws 0 mod length ?ms)"
    using hyp by simp
  from random_sample2_returns [OF len' this] obtain s
    where s: "random_sample2 draws ?ms = Some s"
    by blast
  from random_sample2_safe [OF len' s] obtain i j
    where ij: "i < length ?ms" "j < length ?ms" "i \<noteq> j" and sv: "s = Inr [?ms ! i, ?ms ! j]"
    by blast
  have res: "get_battle draws d
      = Some (Inr \<lparr>model1 = llm_models d ! i, model2 = llm_models d ! j\<rparr>, d)"
    unfolding get_battle_many [OF len] s sv using ij by simp
  have "distinct (map model_id (llm_models d)) \<longrightarrow>
          model_id (llm_models d ! i) \<noteq> model_id (llm_models d ! j)"
    using ij by (auto simp: distinct_conv_nth)
  with ij res
  show "\<exists>i j. i < length (llm_models d) \<and> j < length (llm_models d) \<and> i \<noteq> j \<and>
         get_battle draws d
           = Some (Inr \<lparr>model1 = llm_models d ! i, model2 = llm_models d ! j\<rparr>, d) \<and>
         (distinct (map model_id (llm_models d)) \<longrightarrow>
            model_id (llm_models d ! i) \<noteq> model_id (llm_models d ! j))"
    by auto
next
  fix r d'
  assume "get_battle draws d = Some (r, d')"
  from get_battle_safe [OF this] show "d' = d"
    by simp
next
  fix r d' b
  assume "get_battle draws d = Some (r, d')" and "r = Inr b"
  with get_battle_safe [of draws d r d']
  show "\<exists>i j. i < length (llm_models d) \<and> j < length (llm_models d) \<and> i \<noteq> j \<and>
            b = \<lparr>model1 = llm_models d ! i, model2 = llm_models d ! j\<rparr>"
    by simp
next
  assume "inj_on uuid4 {..<8}"
  then have "distinct (map uuid4 [0..<8])"
    by (simp add: distinct_map lessThan_atLeast0 del: upt_Suc)
  then show "distinct (map model_id
        (llm_models (submit_votes vs (snd (seed_models uuid4 utcnow d0)))))"
    by (simp only: submit_votes_ids seed_models_ids)
qed

theorem get_battle_pair_witness:
  "2 \<le> length (llm_models example_voted_db) \<and>
   distinct (map model_id (llm_models example_voted_db)) \<and>
   get_battle example_draws example_voted_db
     = Some (Inr \<lparr>model1 = example_model ''a'' 1 1 0 (Finite 100),
                  model2 = example_model ''b'' 3 1 2 (fl (333 / 10))\<rparr>,
             example_voted_db) \<and>
   21 < length (llm_models example_large_db) \<and>
   example_draws 3 mod min (length (llm_models example_large_db)) 1000
     \<noteq> example_draws 0 mod min (length (llm_models example_large_db)) 1000 \<and>
   get_battle example_draws example_large_db
     = Some (Inr \<lparr>model1 = example_model ''3'' 0 0 0 (Finite 0),
                  model2 = example_model ''24'' 0 0 0 (Finite 0)\<rparr>,
             example_large_db) \<and>
   length (llm_models \<lparr>llm_models = [example_model ''a'' 0 0 0 (Finite 0)], votes = []\<rparr>) < 2 \<and>
   get_battle example_draws \<lparr>llm_models = [example_model ''a'' 0 0 0 (Finite 0)], votes = []\<rparr>
     = Some (Inl (HTTPException 500
                   (Str (HTTPException 400 (Text ''Need at least 2 models to battle'')))),
             \<lparr>llm_models = [example_model ''a'' 0 0 0 (Finite 0)], votes = []\<rparr>) \<and>
   inj_on str_nat {..<8} \<and>
   distinct (map model_id (llm_models (snd (seed_models str_nat (\<lambda>i. i) example_db))))"
proof -
  have inj: "inj_on str_nat {..<8}"
  proof -
    have "map str_nat [0..<8] = [''0'', ''1'', ''2'', ''3'', ''4'', ''5'', ''6'', ''7'']"
      by code_simp
    then have "distinct (map str_nat [0..<8])"
      by simp
    then show ?thesis
      by (simp add: distinct_map lessThan_atLeast0 del: upt_Suc str_nat.simps)
  qed
  have large: "21 < length (llm_models example_large_db)"
    "example_draws 3 mod min (length (llm_models example_large_db)) 1000
     \<noteq> example_draws 0 mod min (length (llm_models example_large_db)) 1000"
    by (simp_all add: example_large_db_def example_draws_def)
  have small: "2 \<le> length (llm_models example_voted_db)"
    "distinct (map model_id (llm_models example_voted_db))"
    by (simp_all add: example_voted_db_def example_model_def)
  show ?thesis
    using get_battle_pair [of example_voted_db example_draws str_nat "[]" "\<lambda>i. i" example_db]
      get_battle_pair [of "\<lparr>llm_models = [example_model ''a'' 0 0 0 (Finite 0)], votes = []\<rparr>"
        example_draws str_nat "[]" "\<lambda>i. i" example_db]
      example_pool_battle example_large_battle inj large small
    by (simp del: str_nat.simps)
qed

text \<open>
  Claim C6. When the winner id or the loser id matches no entity, \<^verbatim>\<open>submit_vote\<close> still
  appends the vote record; no document with the missing id exists afterwards, and apart
  from the documents carrying the other id the catalog is unchanged. Where the stored
  counters are BSON 64-bit integers it returns the success response, the same one as for
  a fully applied vote.
\<close>

theorem submit_vote_missing_entity:
  "find_one (\<lambda>m. model_id m = winner_id vr) (llm_models d) = None
     \<or> find_one (\<lambda>m. model_id m = loser_id vr) (llm_models d) = None \<Longrightarrow>
   ((\<forall>m\<in>set (llm_models d). bson_counters m) \<longrightarrow>
      fst (submit_vote uuid now vr d)
        = Inr \<lparr>success = True, message = ''Vote recorded successfully''\<rparr>) \<and>
   votes (snd (submit_vote uuid now vr d))
     = votes d @ [\<lparr>vote_id = uuid, vote_winner_id = winner_id vr,
                   vote_loser_id = loser_id vr, voter_ip = None, timestamp = now\<rparr>] \<and>
   (find_one (\<lambda>m. model_id m = winner_id vr) (llm_models d) = None \<longrightarrow>
      find_one (\<lambda>m. model_id m = winner_id vr) (llm_models (snd (submit_vote uuid now vr d)))
        = None \<and>
      filter (\<lambda>m. model_id m \<noteq> loser_id vr) (llm_models (snd (submit_vote uuid now vr d)))
        = filter (\<lambda>m. model_id m \<noteq> loser_id vr) (llm_models d)) \<and>
   (find_one (\<lambda>m. model_id m = loser_id vr) (llm_models d) = None \<longrightarrow>
      find_one (\<lambda>m. model_id m = loser_id vr) (llm_models (snd (submit_vote uuid now vr d)))
        = None \<and>
      filter (\<lambda>m. model_id m \<noteq> winner_id vr) (llm_models (snd (submit_vote uuid now vr d)))
        = filter (\<lambda>m. model_id m \<noteq> winner_id vr) (llm_models d))"
proof -
  obtain f g where fg: "\<forall>m. only_win_rate m (f m)" "\<forall>m. only_win_rate m (g m)"
    and eq: "llm_models (snd (submit_vote uuid now vr d))
       = update_one (\<lambda>m. model_id m = loser_id vr) g
           (update_one (\<lambda>m. model_id m = winner_id vr) f
             (update_one (\<lambda>m. model_id m = loser_id vr) loser_update
               (update_one (\<lambda>m. model_id m = winner_id vr) winner_update (llm_models d))))"
    and ledger: "votes (snd (submit_vote uuid now vr d))
       = votes d @ [\<lparr>vote_id = uuid, vote_winner_id = winner_id vr,
                     vote_loser_id = loser_id vr, voter_ip = None, timestamp = now\<rparr>]"
    using submit_vote_shape [of uuid now vr d] by blast
  have keep [simp]: "model_id (f x) = model_id x" "model_id (g x) = model_id x" for x
    using fg only_win_rate_fields [of x "f x"] only_win_rate_fields [of x "g x"] by simp_all
  show ?thesis
    unfolding eq ledger
    by (simp add: submit_vote_eq update_one_absent find_one_update_None filter_update_one)
qed

theorem submit_vote_missing_entity_witness:
  "find_one (\<lambda>m. model_id m = ''zz'') (llm_models example_db) = None \<and>
   list_all bson_counters (llm_models example_db) \<and>
   fst (submit_vote ''v1'' 7 \<lparr>winner_id = ''zz'', loser_id = ''b''\<rparr> example_db)
     = Inr \<lparr>success = True, message = ''Vote recorded successfully''\<rparr> \<and>
   votes (snd (submit_vote ''v1'' 7 \<lparr>winner_id = ''zz'', loser_id = ''b''\<rparr> example_db))
     = [\<lparr>vote_id = ''v1'', vote_winner_id = ''zz'', vote_loser_id = ''b'', voter_ip = None,
         timestamp = 7\<rparr>] \<and>
   find_one (\<lambda>m. model_id m = ''zz'')
       (llm_models (snd (submit_vote ''v1'' 7 \<lparr>winner_id = ''zz'', loser_id = ''b''\<rparr> example_db)))
     = None \<and>
   filter (\<lambda>m. model_id m \<noteq> ''b'')
       (llm_models (snd (submit_vote ''v1'' 7 \<lparr>winner_id = ''zz'', loser_id = ''b''\<rparr> example_db)))
     = [example_model ''a'' 0 0 0 (Finite 0)]"
  using submit_vote_missing_entity [of "\<lparr>winner_id = ''zz'', loser_id = ''b''\<rparr>" example_db
      "''v1''" 7] example_db_bson
  by (simp add: list_all_iff) (simp add: example_db_def example_model_def)

text \<open>
  Claim C7, as amended. The specification says the leaderboard holds all entities. The
  route reads its cursor with \<^verbatim>\<open>to_list(1000)\<close>: it returns the first 1000 entries of
  the catalog sorted by \<open>wins\<close> descending, then by \<open>win_rate\<close> descending in the order
  of BSON numbers, which is the whole sorted catalog whenever the catalog holds at most
  1000 entities. The store is unchanged.
\<close>

theorem get_leaderboard_sorted:
  "\<exists>ys. mset ys = mset (llm_models d) \<and>
        sorted_wrt (\<lambda>a b. wins b < wins a \<or>
                      (wins a = wins b \<and> bson_le (win_rate b) (win_rate a))) ys \<and>
        fst (get_leaderboard d) = Inr (take 1000 ys) \<and>
        (length (llm_models d) \<le> 1000 \<longrightarrow> fst (get_leaderboard d) = Inr ys) \<and>
        snd (get_leaderboard d) = d"
proof -
  let ?ys = "mongo_sort [(\<lambda>m. Finite (of_int (wins m)), - 1), (win_rate, - 1)] (llm_models d)"
  have "sorted_wrt (sort_le [(\<lambda>m. Finite (of_int (wins m)), - 1), (win_rate, - 1)]) ?ys"
    by (rule sorted_mongo_sort)
  then have "sorted_wrt (\<lambda>a b. wins b < wins a \<or>
                      (wins a = wins b \<and> bson_le (win_rate b) (win_rate a))) ?ys"
    by (rule sorted_wrt_mono_rel [rotated]) (simp only: leaderboard_order)
  moreover have "mset ?ys = mset (llm_models d)"
    by (rule mset_mongo_sort)
  moreover have "length (llm_models d) \<le> 1000 \<longrightarrow> take 1000 ?ys = ?ys"
    by (simp add: length_mongo_sort)
  ultimately show ?thesis
    by (intro exI [of _ ?ys]) (simp add: get_leaderboard_eq)
qed

theorem get_leaderboard_sorted_witness:
  "length (llm_models example_voted_db) \<le> 1000 \<and>
   fst (get_leaderboard example_voted_db)
     = Inr [example_model ''c'' 2 2 0 (Finite 100), example_model ''a'' 1 1 0 (Finite 100),
            example_model ''b'' 3 1 2 (fl (333 / 10))] \<and>
   (\<exists>ys. mset ys = mset (llm_models example_voted_db) \<and>
         sorted_wrt (\<lambda>a b. wins b < wins a \<or>
                       (wins a = wins b \<and> bson_le (win_rate b) (win_rate a))) ys \<and>
         fst (get_leaderboard example_voted_db) = Inr ys)"
proof -
  have "fst (get_leaderboard example_voted_db)
     = Inr [example_model ''c'' 2 2 0 (Finite 100), example_model ''a'' 1 1 0 (Finite 100),
            example_model ''b'' 3 1 2 (fl (333 / 10))]"
    by code_simp
  moreover have "length (llm_models example_voted_db) \<le> 1000"
    by (simp add: example_voted_db_def)
  ultimately show ?thesis
    using get_leaderboard_sorted [of example_voted_db] by auto
qed

text \<open>
  The claim as the specification states it fails on a catalog of 1001 entities: the
  leaderboard is not a rearrangement of the catalog.
\<close>

theorem get_leaderboard_sorted_counterexample:
  "length (llm_models example_large_db) = 1001 \<and>
   length (projr (fst (get_leaderboard example_large_db))) = 1000 \<and>
   mset (projr (fst (get_leaderboard example_large_db))) \<noteq> mset (llm_models example_large_db)"
proof (intro conjI)
  show len: "length (llm_models example_large_db) = 1001"
    by (simp add: example_large_db_def)
  show top: "length (projr (fst (get_leaderboard example_large_db))) = 1000"
    by (simp add: get_leaderboard_eq length_mongo_sort len)
  then have "length (projr (fst (get_leaderboard example_large_db)))
      \<noteq> length (llm_models example_large_db)"
    using len by simp
  then show "mset (projr (fst (get_leaderboard example_large_db)))
      \<noteq> mset (llm_models example_large_db)"
    using mset_eq_length by blast
qed

text \<open>
  Claim C8. For every store the statistics report the number of ledger records both as
  \<^verbatim>\<open>total_votes\<close> and as \<^verbatim>\<open>battles_completed\<close>; \<^verbatim>\<open>top_model\<close> is \<^verbatim>\<open>None\<close> for an
  empty catalog and otherwise the name of an entity whose \<open>wins\<close> no entity exceeds.
\<close>

theorem get_battle_stats_counts:
  "\<exists>s. fst (get_battle_stats d) = Inr s \<and>
       stats_total_votes s = length (votes d) \<and>
       battles_completed s = length (votes d) \<and>
       stats_total_votes s = battles_completed s \<and>
       (llm_models d = [] \<longrightarrow> top_model s = None) \<and>
       (llm_models d \<noteq> [] \<longrightarrow>
          (\<exists>m\<in>set (llm_models d). top_model s = Some (name m) \<and>
             (\<forall>m'\<in>set (llm_models d). wins m' \<le> wins m)))"
proof (cases "mongo_sort [(\<lambda>m. Finite (of_int (wins m)), - 1)] (llm_models d)")
  case Nil
  then have "llm_models d = []"
    using length_mongo_sort [of "[(\<lambda>m. Finite (of_int (wins m)), - 1)]" "llm_models d"] by simp
  with Nil show ?thesis
    by (simp add: get_battle_stats_eq)
next
  case (Cons m rest)
  have "sorted_wrt (sort_le [(\<lambda>m. Finite (of_int (wins m)), - 1)]) (m # rest)"
    using sorted_mongo_sort [of "[(\<lambda>m. Finite (of_int (wins m)), - 1)]" "llm_models d"]
    by (simp only: Cons)
  then have "\<forall>m'\<in>set rest. sort_le [(\<lambda>m. Finite (of_int (wins m)), - 1)] m m'"
    by (simp del: sort_le.simps)
  then have "\<forall>m'\<in>set rest. wins m' \<le> wins m"
    by (simp only: top_order)
  moreover have set: "set (llm_models d) = insert m (set rest)"
    using set_mongo_sort [of "[(\<lambda>m. Finite (of_int (wins m)), - 1)]" "llm_models d"]
    by (simp only: Cons) simp
  ultimately have "m \<in> set (llm_models d)" and "\<forall>m'\<in>set (llm_models d). wins m' \<le> wins m"
    by auto
  moreover have "llm_models d \<noteq> []"
    using set by auto
  ultimately show ?thesis
    using Cons by (auto simp add: get_battle_stats_eq)
qed

theorem get_battle_stats_counts_witness:
  "llm_models example_voted_db \<noteq> [] \<and>
   fst (get_battle_stats example_voted_db)
     = Inr \<lparr>stats_total_votes = 3, total_models = 3, top_model = Some ''Model c'',
            battles_completed = 3\<rparr> \<and>
   fst (get_battle_stats \<lparr>llm_models = [], votes = votes example_voted_db\<rparr>)
     = Inr \<lparr>stats_total_votes = 3, total_models = 0, top_model = None,
            battles_completed = 3\<rparr>"
proof -
  have "fst (get_battle_stats example_voted_db)
     = Inr \<lparr>stats_total_votes = 3, total_models = 3, top_model = Some ''Model c'',
            battles_completed = 3\<rparr>"
    by code_simp
  moreover have "fst (get_battle_stats \<lparr>llm_models = [], votes = votes example_voted_db\<rparr>)
     = Inr \<lparr>stats_total_votes = 3, total_models = 0, top_model = None,
            battles_completed = 3\<rparr>"
    by code_simp
  ultimately show ?thesis
    using get_battle_stats_counts [of example_voted_db]
      get_battle_stats_counts [of "\<lparr>llm_models = [], votes = votes example_voted_db\<rparr>"]
    by (simp add: example_voted_db_def)
qed

text \<open>
  Claim C9, as amended. The specification calls \<^verbatim>\<open>calculate_win_rate\<close> a total function.
  It never raises \<^verbatim>\<open>ZeroDivisionError\<close>, and when \<open>total_votes = 0\<close> it returns \<open>0.0\<close>
  whatever \<open>wins\<close> is. It returns a value whenever \<open>wins\<close> is a BSON 64-bit integer. Its
  only exception is \<^verbatim>\<open>OverflowError\<close>, raised when \<open>total_votes\<close> is not zero and the
  quotient \<open>wins / total_votes\<close> is too large for a float.
\<close>

theorem calculate_win_rate_guarded:
  "calculate_win_rate self \<noteq> Inl ZeroDivisionError \<and>
   (total_votes self = 0 \<longrightarrow> calculate_win_rate self = Inr (Finite 0)) \<and>
   (bson_int64 (wins self) \<longrightarrow> (\<exists>rate. calculate_win_rate self = Inr rate)) \<and>
   (\<forall>e. calculate_win_rate self = Inl e \<longrightarrow>
      e = OverflowError \<and> total_votes self \<noteq> 0 \<and>
      overflow_threshold \<le> \<bar>of_int (wins self) / of_int (total_votes self)\<bar>)"
proof (intro conjI impI allI)
  show "calculate_win_rate self \<noteq> Inl ZeroDivisionError"
    by (auto simp: calculate_win_rate_def int_truediv_def split: sum.splits pyfloat.splits)
  show "calculate_win_rate self = Inr (Finite 0)" if "total_votes self = 0"
    using that by (simp add: calculate_win_rate_def)
  show "\<exists>rate. calculate_win_rate self = Inr rate" if "bson_int64 (wins self)"
    using calculate_win_rate_small [of self] bson_int64_small [OF that] by simp
next
  fix e
  assume e: "calculate_win_rate self = Inl e"
  then have nz: "total_votes self \<noteq> 0"
    by (auto simp: calculate_win_rate_def)
  with e have div: "int_truediv (wins self) (total_votes self) = Inl e"
    by (auto simp: calculate_win_rate_def split: sum.splits)
  from int_truediv_errors [OF div nz] show "e = OverflowError" .
  from nz show "total_votes self \<noteq> 0" .
  show "overflow_threshold \<le> \<bar>of_int (wins self) / of_int (total_votes self)\<bar>"
  proof (rule ccontr)
    assume "\<not> overflow_threshold \<le> \<bar>of_int (wins self) / of_int (total_votes self)\<bar>"
    then obtain q where "fl (of_int (wins self) / of_int (total_votes self)) = Finite q"
      using fl_finite [of "of_int (wins self) / of_int (total_votes self)"] by auto
    with div nz show False
      by (simp add: int_truediv_def)
  qed
qed

theorem calculate_win_rate_guarded_witness:
  "total_votes (example_model ''a'' 0 5 0 (Finite 0)) = 0 \<and>
   wins (example_model ''a'' 0 5 0 (Finite 0)) = 5 \<and>
   calculate_win_rate (example_model ''a'' 0 5 0 (Finite 0)) = Inr (Finite 0) \<and>
   bson_int64 (wins (example_model ''a'' 3 1 2 (Finite 0))) \<and>
   calculate_win_rate (example_model ''a'' 3 1 2 (Finite 0)) = Inr (fl (333 / 10))"
proof -
  have "calculate_win_rate (example_model ''a'' 3 1 2 (Finite 0)) = Inr (fl (333 / 10))"
    by code_simp
  then show ?thesis
    using calculate_win_rate_guarded [of "example_model ''a'' 0 5 0 (Finite 0)"]
      calculate_win_rate_guarded [of "example_model ''a'' 3 1 2 (Finite 0)"]
    by (simp add: example_model_def bson_int64_def)
qed

text \<open>
  The claim as the specification states it fails on a document with \<open>wins = 10 ^ 400\<close>
  and \<open>total_votes = 1\<close>: the method raises \<^verbatim>\<open>OverflowError\<close>.
\<close>

theorem calculate_win_rate_guarded_counterexample:
  "calculate_win_rate (example_model ''a'' 1 (10 ^ 400) 0 (Finite 0)) = Inl OverflowError"
  by (simp add: calculate_win_rate_def example_model_def int_truediv_def fl_def
      overflow_threshold_def)

text \<open>
  Claim C10. A vote whose winner and loser are the same id, matching an entity, raises
  that entity's \<open>total_votes\<close> by 2, its \<open>wins\<close> by 1 and its \<open>losses\<close> by 1, keeps
  \<open>total_votes = wins + losses\<close> if it held, and appends one record to the ledger.
\<close>

theorem submit_vote_self_vote:
  "winner_id vr = loser_id vr \<Longrightarrow>
   find_one (\<lambda>m. model_id m = winner_id vr) (llm_models d) = Some m \<Longrightarrow>
     (\<exists>m'. find_one (\<lambda>m. model_id m = winner_id vr)
             (llm_models (snd (submit_vote uuid now vr d))) = Some m' \<and>
           total_votes m' = total_votes m + 2 \<and>
           wins m' = wins m + 1 \<and>
           losses m' = losses m + 1 \<and>
           (total_votes m = wins m + losses m \<longrightarrow> total_votes m' = wins m' + losses m')) \<and>
     length (votes (snd (submit_vote uuid now vr d))) = length (votes d) + 1"
proof -
  assume same: "winner_id vr = loser_id vr"
    and found: "find_one (\<lambda>m. model_id m = winner_id vr) (llm_models d) = Some m"
  obtain f g where fg: "\<forall>m. only_win_rate m (f m)" "\<forall>m. only_win_rate m (g m)"
    and eq: "llm_models (snd (submit_vote uuid now vr d))
       = update_one (\<lambda>m. model_id m = loser_id vr) g
           (update_one (\<lambda>m. model_id m = winner_id vr) f
             (update_one (\<lambda>m. model_id m = loser_id vr) loser_update
               (update_one (\<lambda>m. model_id m = winner_id vr) winner_update (llm_models d))))"
    and ledger: "votes (snd (submit_vote uuid now vr d))
       = votes d @ [\<lparr>vote_id = uuid, vote_winner_id = winner_id vr,
                     vote_loser_id = loser_id vr, voter_ip = None, timestamp = now\<rparr>]"
    using submit_vote_shape [of uuid now vr d] by blast
  have keep: "model_id (h x) = model_id x \<and> total_votes (h x) = total_votes x \<and>
      wins (h x) = wins x \<and> losses (h x) = losses x" if "\<forall>m. only_win_rate m (h m)" for h x
    using that only_win_rate_fields [of x "h x"] by simp
  have "find_one (\<lambda>m. model_id m = winner_id vr) (llm_models (snd (submit_vote uuid now vr d)))
      = Some (g (f (loser_update (winner_update m))))"
    unfolding eq same [symmetric]
    by (simp add: find_one_update_same keep fg found)
  then show ?thesis
    by (simp add: ledger keep fg)
qed

theorem submit_vote_self_vote_witness:
  "winner_id \<lparr>winner_id = ''a'', loser_id = ''a''\<rparr> = loser_id \<lparr>winner_id = ''a'', loser_id = ''a''\<rparr> \<and>
   find_one (\<lambda>m. model_id m = ''a'') (llm_models example_db)
     = Some (example_model ''a'' 0 0 0 (Finite 0)) \<and>
   (\<exists>m'. find_one (\<lambda>m. model_id m = ''a'')
           (llm_models (snd (submit_vote ''v1'' 7 \<lparr>winner_id = ''a'', loser_id = ''a''\<rparr> example_db)))
           = Some m' \<and>
         total_votes m' = 2 \<and> wins m' = 1 \<and> losses m' = 1) \<and>
   length (votes (snd (submit_vote ''v1'' 7 \<lparr>winner_id = ''a'', loser_id = ''a''\<rparr> example_db))) = 1"
proof -
  have found: "find_one (\<lambda>m. model_id m = ''a'') (llm_models example_db)
     = Some (example_model ''a'' 0 0 0 (Finite 0))"
    by (simp add: example_db_def example_model_def)
  have "total_votes (example_model ''a'' 0 0 0 (Finite 0)) = 0"
    "wins (example_model ''a'' 0 0 0 (Finite 0)) = 0"
    "losses (example_model ''a'' 0 0 0 (Finite 0)) = 0"
    "length (votes example_db) = 0"
    by (simp_all add: example_model_def example_db_def)
  then show ?thesis
    using submit_vote_self_vote [of "\<lparr>winner_id = ''a'', loser_id = ''a''\<rparr>" example_db
        "example_model ''a'' 0 0 0 (Finite 0)" "''v1''" 7] found
    by auto
qed

end
